theory Spec2Isabelle
  imports Complex_Main "HOL-Library.Multiset" "HOL-Library.AList" "HOL-Library.Log_Nat"
begin

section \<open>Dates as the runtime holds them\<close>

text \<open>
  The routes work on the runtime's \<^verbatim>\<open>Date\<close> objects. A \<^verbatim>\<open>Date\<close> holds a time
  value, the milliseconds since 1970-01-01T00:00Z, or NaN (the Invalid Date). The methods the
  routes call (\<^verbatim>\<open>getDay\<close>, \<^verbatim>\<open>getDate\<close>, \<^verbatim>\<open>setDate\<close>, \<^verbatim>\<open>getMonth\<close>, \<^verbatim>\<open>getFullYear\<close>)
  read and write the fields of the local time of the host, while \<^verbatim>\<open>new Date(s)\<close> reads a
  date-only string as midnight UTC and \<^verbatim>\<open><=\<close> compares time values.

  A local calendar day is its day number, the days since 1970-01-01, an \<open>int\<close>; the field
  functions below take the day number. A \<^verbatim>\<open>Date\<close> that comes from the database or from the
  clock is only ever read through its local fields, and the model keeps its local day
  number. A \<^verbatim>\<open>Date\<close> made from a string keeps its time value, an \<open>int\<close> of milliseconds;
  one that may be invalid is an \<open>int option\<close>, \<open>None\<close> being the Invalid Date, and a
  comparison with an Invalid Date is false.
\<close>

text \<open>
  \<^verbatim>\<open>Date.prototype.getDay\<close> on the local day: 0 is Sunday, 6 is Saturday; day 0 was a
  Thursday.
\<close>

definition getDay :: "int \<Rightarrow> int" where
  "getDay t = (t + 4) mod 7"

text \<open>
  The day number of a year, a month (1 to 12) and a day of the month, as
  \<^verbatim>\<open>new Date(year, month - 1, day)\<close> computes it. A day of the month past the end of
  the month runs on into the next month.
\<close>

definition MakeDay :: "int \<Rightarrow> int \<Rightarrow> int \<Rightarrow> int" where
  "MakeDay y m d =
     (let y' = (if m \<le> 2 then y - 1 else y);
          mp = (if m > 2 then m - 3 else m + 9);
          era = y' div 400;
          yoe = y' mod 400;
          doy = (153 * mp + 2) div 5 + d - 1;
          doe = 365 * yoe + yoe div 4 - yoe div 100 + doy
      in era * 146097 + doe - 719468)"

text \<open>
  The year, month (1 to 12) and day of the month of a day number: what
  \<^verbatim>\<open>getFullYear\<close>, \<^verbatim>\<open>getMonth() + 1\<close> and \<^verbatim>\<open>getDate\<close> read off a \<^verbatim>\<open>Date\<close>.
\<close>

definition civil :: "int \<Rightarrow> int \<times> int \<times> int" where
  "civil t =
     (let z = t + 719468;
          era = z div 146097;
          doe = z mod 146097;
          c = min 3 (doe div 36524);
          r = doe - 36524 * c;
          q = r div 1461;
          s = r mod 1461;
          a = min 3 (s div 365);
          doy = s - 365 * a;
          y' = 400 * era + 100 * c + 4 * q + a;
          mp = (5 * doy + 2) div 153;
          d = doy - (153 * mp + 2) div 5 + 1;
          m = (if mp < 10 then mp + 3 else mp - 9)
      in (if m \<le> 2 then y' + 1 else y', m, d))"

definition getFullYear :: "int \<Rightarrow> int" where
  "getFullYear t = (case civil t of (y, m, d) \<Rightarrow> y)"

definition getMonth :: "int \<Rightarrow> int" where
  "getMonth t = (case civil t of (y, m, d) \<Rightarrow> m - 1)"

definition getDate :: "int \<Rightarrow> int" where
  "getDate t = (case civil t of (y, m, d) \<Rightarrow> d)"

subsection \<open>Time values and the local time of the host\<close>

text \<open>
  The host of the process decides two things the sources leave open: its time zone, and what
  \<^verbatim>\<open>new Date(s)\<close> makes of a string that is not in the date-only form. A time zone is a
  standard offset from UTC in milliseconds (positive east of Greenwich) and one hour of
  daylight saving time while it is in force; the two predicates say when that is, for a time
  value and for a local time value. For a local time value that occurs twice or not at all
  (at a change of the offset) the language has the offset from before the change.
  \<open>LocalTZA\<close>, \<open>LocalTime\<close>, \<open>UTC\<close>, \<open>Day\<close> and \<open>TimeWithinDay\<close> are the
  abstract operations of the language specification under their names there.
\<close>

definition msPerDay :: int where
  "msPerDay = 86400000"

definition msPerHour :: int where
  "msPerHour = 3600000"

record host =
  standardOffset :: int
  daylightAtUTC :: "int \<Rightarrow> bool"
  daylightAtLocal :: "int \<Rightarrow> bool"
  parseOther :: "string \<Rightarrow> int option"

definition LocalTZA :: "host \<Rightarrow> int \<Rightarrow> bool \<Rightarrow> int" where
  "LocalTZA h t isUTC =
     standardOffset h
       + (if (if isUTC then daylightAtUTC h t else daylightAtLocal h t) then msPerHour else 0)"

definition LocalTime :: "host \<Rightarrow> int \<Rightarrow> int" where
  "LocalTime h t = t + LocalTZA h t True"

definition UTC :: "host \<Rightarrow> int \<Rightarrow> int" where
  "UTC h t = t - LocalTZA h t False"

definition Day :: "int \<Rightarrow> int" where
  "Day t = t div msPerDay"

definition TimeWithinDay :: "int \<Rightarrow> int" where
  "TimeWithinDay t = t mod msPerDay"

text \<open>The local calendar day of a time value: what the field methods read.\<close>

definition localDay :: "host \<Rightarrow> int \<Rightarrow> int" where
  "localDay h t = Day (LocalTime h t)"

text \<open>
  \<^verbatim>\<open>Date.prototype.setDate(dt)\<close> on a time value: the local year and month stay, the day
  of the month becomes \<open>dt\<close> (running on into the next month past its end), the local time
  of day stays, and the local time value so made is taken back to UTC.
\<close>

definition setDate :: "host \<Rightarrow> int \<Rightarrow> int \<Rightarrow> int" where
  "setDate h t dt =
     (case civil (localDay h t) of
        (y, m, d) \<Rightarrow> UTC h (MakeDay y m dt * msPerDay + TimeWithinDay (LocalTime h t)))"

text \<open>
  Two hosts for concrete runs. \<open>utcHost\<close> keeps UTC. \<open>warsawHost\<close> keeps the Central
  European time of the year 2024: one hour east of Greenwich, with daylight saving time from
  2024-03-31T01:00Z to 2024-10-27T01:00Z, that is from 03:00 local time on 31 March up to
  03:00 local time on 27 October. Both read no string but the date-only form.
\<close>

definition utcHost :: host where
  "utcHost =
     \<lparr>standardOffset = 0, daylightAtUTC = (\<lambda>t. False), daylightAtLocal = (\<lambda>t. False),
      parseOther = (\<lambda>s. None)\<rparr>"

definition warsawHost :: host where
  "warsawHost =
     \<lparr>standardOffset = 3600000,
      daylightAtUTC = (\<lambda>t. 1711846800000 \<le> t \<and> t < 1729990800000),
      daylightAtLocal = (\<lambda>t. 1711854000000 \<le> t \<and> t < 1729998000000),
      parseOther = (\<lambda>s. None)\<rparr>"

subsection \<open>Date strings\<close>

definition digit_char :: "nat \<Rightarrow> char" where
  "digit_char n = ''0123456789'' ! (n mod 10)"

definition digit_val :: "char \<Rightarrow> nat option" where
  "digit_val c =
     map_of [(CHR ''0'', 0), (CHR ''1'', 1), (CHR ''2'', 2), (CHR ''3'', 3), (CHR ''4'', 4),
             (CHR ''5'', 5), (CHR ''6'', 6), (CHR ''7'', 7), (CHR ''8'', 8), (CHR ''9'', 9)] c"

text \<open>The number a string of decimal digits writes; \<open>None\<close> when a character is no digit.\<close>

fun digits_val :: "nat \<Rightarrow> string \<Rightarrow> nat option" where
  "digits_val acc [] = Some acc"
| "digits_val acc (c # cs) =
     (case digit_val c of None \<Rightarrow> None | Some v \<Rightarrow> digits_val (10 * acc + v) cs)"

definition pad2 :: "nat \<Rightarrow> string" where
  "pad2 n = [digit_char (n div 10), digit_char n]"

definition pad4 :: "nat \<Rightarrow> string" where
  "pad4 n = [digit_char (n div 1000), digit_char (n div 100), digit_char (n div 10), digit_char n]"

text \<open>
  The date-only form \<^verbatim>\<open>YYYY-MM-DD\<close>, which is what the date fields of the holiday form
  submit and what the canonical form is: the day number it names, \<open>None\<close> for a string
  that is not in this form. The runtime takes a month from 1 to 12 and a day of the month
  from 1 to 31 and lets a day past the end of the month run on.
\<close>

fun parseIsoDate :: "string \<Rightarrow> int option" where
  "parseIsoDate [y1, y2, y3, y4, h1, m1, m2, h2, d1, d2] =
     (if h1 = CHR ''-'' \<and> h2 = CHR ''-'' then
        (case (digits_val 0 [y1, y2, y3, y4], digits_val 0 [m1, m2], digits_val 0 [d1, d2]) of
           (Some y, Some m, Some d) \<Rightarrow>
             (if 1 \<le> m \<and> m \<le> 12 \<and> 1 \<le> d \<and> d \<le> 31
              then Some (MakeDay (int y) (int m) (int d)) else None)
         | _ \<Rightarrow> None)
      else None)"
| "parseIsoDate _ = None"

text \<open>
  \<^verbatim>\<open>new Date(s)\<close> on a string: a string in the date-only form is midnight UTC of its day;
  what any other string gives (a time value, or the Invalid Date) is for the host to say.
\<close>

definition newDate :: "host \<Rightarrow> string \<Rightarrow> int option" where
  "newDate h s =
     (case parseIsoDate s of Some day \<Rightarrow> Some (day * msPerDay) | None \<Rightarrow> parseOther h s)"

text \<open>
  Modelled from the spec: \<^verbatim>\<open>formatDate\<close> of \<^verbatim>\<open>utils/dateUtils\<close>, which is not among the
  sources. Section 4.1 has it canonicalise a date to the form \<^verbatim>\<open>YYYY-MM-DD\<close>, the single
  normalisation point before any membership test or comparison. The year is written in four
  columns, which is the form of every year from 0 to 9999, the years a date string can name.
  The spec has a date without a time of day and names no time zone; the function here takes
  the local day of the \<^verbatim>\<open>Date\<close>, the day the field methods of the routes read.
\<close>

definition formatDate :: "int \<Rightarrow> string" where
  "formatDate t =
     (case civil t of (y, m, d) \<Rightarrow> pad4 (nat y) @ ''-'' @ pad2 (nat m) @ ''-'' @ pad2 (nat d))"

text \<open>
  Modelled from the spec: \<^verbatim>\<open>formatDate\<close> of \<^verbatim>\<open>utils/dateUtils\<close> on a date string.
  Section 4.6 has the date utilities raise a computation error on an unparseable string,
  which is \<open>None\<close> here; a string that parses is formatted as its day.
\<close>

definition formatDateString :: "host \<Rightarrow> string \<Rightarrow> string option" where
  "formatDateString h s = map_option (\<lambda>t. formatDate (localDay h t)) (newDate h s)"

section \<open>The business-day generator\<close>

text \<open>
  A public holiday as the model \<^verbatim>\<open>PublicHoliday\<close> hands it over: its date, kept as the
  local day number of the \<^verbatim>\<open>Date\<close>, and its name.
\<close>

record public_holiday =
  holiday_date :: int
  name :: string

text \<open>
  The loop of \<^verbatim>\<open>generateDateRange\<close>: \<open>currentDate\<close> and \<open>lastDate\<close> are time values,
  \<^verbatim>\<open><=\<close> compares them, the day of the week and the canonical form are read off the local
  day of \<open>currentDate\<close>, and \<^verbatim>\<open>setDate(getDate() + 1)\<close> steps the local day. The days that
  are kept are pushed on \<open>dates\<close>. The loop ends on every host: a step moves the time value
  on by at least 23 hours (shown with the facts about the calendar).
\<close>

function generateDateRange_loop ::
  "host \<Rightarrow> string list \<Rightarrow> int \<Rightarrow> int \<Rightarrow> string list \<Rightarrow> string list" where
  "generateDateRange_loop h publicHolidayDates lastDate currentDate dates =
     (if currentDate \<le> lastDate then
        generateDateRange_loop h publicHolidayDates lastDate
          (setDate h currentDate (getDate (localDay h currentDate) + 1))
          (if getDay (localDay h currentDate) \<noteq> 0 \<and> getDay (localDay h currentDate) \<noteq> 6
              \<and> formatDate (localDay h currentDate) \<notin> set publicHolidayDates
           then dates @ [formatDate (localDay h currentDate)] else dates)
      else dates)"
  by pat_completeness auto

definition generateDateRange ::
  "host \<Rightarrow> string \<Rightarrow> string \<Rightarrow> public_holiday list \<Rightarrow> string list" where
  "generateDateRange h startDate endDate publicHolidays =
     (let publicHolidayDates = map (\<lambda>ph. formatDate (holiday_date ph)) publicHolidays in
      case (newDate h startDate, newDate h endDate) of
        (Some currentDate, Some lastDate) \<Rightarrow>
          generateDateRange_loop h publicHolidayDates lastDate currentDate []
      | _ \<Rightarrow> [])"

section \<open>Adding a holiday\<close>

text \<open>
  The handler of \<^verbatim>\<open>POST /holidays\<close>. The request body carries two form fields, each absent
  (\<open>None\<close>) or a string; \<^verbatim>\<open>!start_date\<close> holds of an absent field and of the empty string.
  The holidays table is the list of its rows, a row keeping the user and the date as the
  queries of the handler pass it. \<^verbatim>\<open>PublicHoliday.findByDateRange\<close> is not among the
  sources: the handler takes it as the parameter \<open>findByDateRange\<close>, \<open>None\<close> when the
  query throws. Every \<^verbatim>\<open>return res.redirect\<close> and the \<^verbatim>\<open>catch\<close> of the handler is a value of
  \<open>outcome\<close>; \<open>Added\<close> carries the generated dates of the success redirect, whose
  message text (how many days, which kinds of days were left out) is not part of the model.
  The two queries of the transaction are taken to succeed.
\<close>

record body =
  start_date :: "string option"
  end_date :: "string option"

record holiday_row =
  row_user_id :: nat
  row_holiday_date :: string

datatype outcome =
  InvalidDate
  | WeekendNotAllowed
  | PublicHolidayNotAllowed
  | NoValidDays
  | Failed
  | Added "string list"

text \<open>
  The body of the transaction: for each generated date the \<^verbatim>\<open>SELECT\<close> of the rows of that
  user and date, and the \<^verbatim>\<open>INSERT\<close> when it returns no row.
\<close>

fun insertHolidays :: "nat \<Rightarrow> string list \<Rightarrow> holiday_row list \<Rightarrow> holiday_row list" where
  "insertHolidays userId [] holidays = holidays"
| "insertHolidays userId (date # rest) holidays =
     (let existing = [r \<leftarrow> holidays. row_user_id r = userId \<and> row_holiday_date r = date]
      in insertHolidays userId rest
           (if length existing = 0
            then holidays @ [\<lparr>row_user_id = userId, row_holiday_date = date\<rparr>]
            else holidays))"

text \<open>
  \<^verbatim>\<open>dayOfWeek === 0 || dayOfWeek === 6\<close> on the local day of a \<^verbatim>\<open>Date\<close> that may be
  invalid: \<^verbatim>\<open>getDay\<close> of the Invalid Date is NaN, which equals neither.
\<close>

definition isWeekendDay :: "int option \<Rightarrow> bool" where
  "isWeekendDay date = (case date of None \<Rightarrow> False | Some t \<Rightarrow> getDay t = 0 \<or> getDay t = 6)"

text \<open>\<^verbatim>\<open>end_date || start_date\<close>: the right operand when the left one is absent or empty.\<close>

definition orElse :: "string option \<Rightarrow> string \<Rightarrow> string" where
  "orElse v d = (case v of None \<Rightarrow> d | Some e \<Rightarrow> if e = [] then d else e)"

text \<open>
  The checks of the handler, up to the generated list of dates (lines 119 to 152 of the
  route file): the value is the redirect the handler returns early with, or \<open>Added\<close> with
  the dates it goes on to write.
\<close>

definition validate ::
  "host \<Rightarrow> (string \<Rightarrow> string \<Rightarrow> public_holiday list option) \<Rightarrow> body \<Rightarrow> outcome" where
  "validate h findByDateRange req =
     (case start_date req of
        None \<Rightarrow> InvalidDate
      | Some start \<Rightarrow>
          if start = [] then InvalidDate
          else if isWeekendDay (map_option (localDay h) (newDate h start)) then WeekendNotAllowed
          else
            (let actualEndDate = orElse (end_date req) start
             in case findByDateRange start actualEndDate of
                  None \<Rightarrow> Failed
                | Some publicHolidays \<Rightarrow>
                    (case formatDateString h start of
                       None \<Rightarrow> Failed
                     | Some startDateFormatted \<Rightarrow>
                         if startDateFormatted
                              \<in> set (map (\<lambda>ph. formatDate (holiday_date ph)) publicHolidays)
                         then PublicHolidayNotAllowed
                         else
                           (let holidayDates = generateDateRange h start actualEndDate publicHolidays
                            in if length holidayDates = 0 then NoValidDays
                               else Added holidayDates))))"

text \<open>
  The handler: the checks, then the transaction over the generated dates. Every other
  outcome returns before the transaction and leaves the table as it was.
\<close>

definition post_holidays ::
  "host \<Rightarrow> (string \<Rightarrow> string \<Rightarrow> public_holiday list option) \<Rightarrow> nat \<Rightarrow> body
    \<Rightarrow> holiday_row list \<Rightarrow> outcome \<times> holiday_row list" where
  "post_holidays h findByDateRange userId req holidays =
     (case validate h findByDateRange req of
        Added holidayDates \<Rightarrow> (Added holidayDates, insertHolidays userId holidayDates holidays)
      | rejected \<Rightarrow> (rejected, holidays))"

section \<open>The numbers of the runtime\<close>

text \<open>
  A number of the runtime is a double of IEEE 754, and \<^verbatim>\<open>+\<close>, \<^verbatim>\<open>-\<close>, \<^verbatim>\<open>*\<close> and \<^verbatim>\<open>/\<close> give the
  exact result rounded to the nearest double, a tie going to the double with the even
  significand. The model keeps a finite double as the real number it stands for and writes
  the rounding out: \<open>fl\<close> takes a real number to the nearest double. A double has 53
  significant bits, so the doubles next to \<open>x\<close> lie \<open>2 powi (e - 52)\<close> apart, \<open>e\<close> being the
  binary exponent of \<open>x\<close> (the \<open>e\<close> with \<open>2 powi e \<le> \<bar>x\<bar> < 2 powi (e + 1)\<close>), and
  \<open>2 powi (- 1074)\<close> apart below \<open>2 powi (- 1022)\<close>. Infinity and NaN are no values of the
  model: it follows the runtime as long as the magnitudes stay below \<open>2 ^ 1024\<close>, which
  hours do.
\<close>

definition exponent :: "real \<Rightarrow> int" where
  "exponent x =
     (if 1 \<le> x then int (floorlog 2 (nat \<lfloor>x\<rfloor>)) - 1
      else - int (floorlog 2 (nat (\<lceil>1 / x\<rceil> - 1))))"

definition ulpExponent :: "real \<Rightarrow> int" where
  "ulpExponent x = max (exponent \<bar>x\<bar>) (- 1022) - 52"

definition roundHalfEven :: "real \<Rightarrow> int" where
  "roundHalfEven r =
     (let f = \<lfloor>r\<rfloor> in
      if r - of_int f < 1 / 2 then f
      else if 1 / 2 < r - of_int f then f + 1
      else if even f then f else f + 1)"

definition fl :: "real \<Rightarrow> real" where
  "fl x = of_int (roundHalfEven (x / 2 powi ulpExponent x)) * 2 powi ulpExponent x"

text \<open>
  \<^verbatim>\<open>Math.round\<close>: the nearest integer, a half going up. The result is an integer of the
  magnitude of its argument and needs no rounding.
\<close>

definition Math_round :: "real \<Rightarrow> real" where
  "Math_round x = of_int \<lfloor>x + 1 / 2\<rfloor>"

section \<open>Monthly statistics of the home page\<close>

text \<open>
  Modelled from the spec: \<^verbatim>\<open>getWeekdaysInMonth\<close> of \<^verbatim>\<open>utils/dateUtils\<close>, which is not
  among the sources. Section 4.1 has it count the days of the month whose day of the week
  is not a weekend day.
\<close>

definition getWeekdaysInMonth :: "int \<Rightarrow> int \<Rightarrow> int" where
  "getWeekdaysInMonth year month =
     int (length [t \<leftarrow> [MakeDay year month 1 .. MakeDay year (month + 1) 1 - 1].
                    getDay t \<noteq> 0 \<and> getDay t \<noteq> 6])"

text \<open>
  The constants of the statistics block, one definition for each \<^verbatim>\<open>const\<close> of the source.
  The worked hours are a double. The counts of days and the hours made of them by a
  multiplication by 8 are integers far below \<open>2 ^ 53\<close>, where the arithmetic of the runtime
  is exact, and are kept as integers.
\<close>

definition hoursPerDay :: int where
  "hoursPerDay = 8"

definition publicHolidaysOnWorkdays :: "public_holiday list \<Rightarrow> public_holiday list" where
  "publicHolidaysOnWorkdays publicHolidays =
     [holiday \<leftarrow> publicHolidays.
        getDay (holiday_date holiday) \<noteq> 0 \<and> getDay (holiday_date holiday) \<noteq> 6]"

definition requiredMonthlyHours :: "int \<Rightarrow> int \<Rightarrow> public_holiday list \<Rightarrow> int" where
  "requiredMonthlyHours year month publicHolidays =
     (getWeekdaysInMonth year month - int (length publicHolidays)) * hoursPerDay"

definition totalHolidayHours :: "int \<Rightarrow> int" where
  "totalHolidayHours holidayCount = holidayCount * hoursPerDay"

definition publicHolidayHours :: "public_holiday list \<Rightarrow> int" where
  "publicHolidayHours publicHolidays =
     int (length (publicHolidaysOnWorkdays publicHolidays)) * hoursPerDay"

definition totalCombinedHours :: "real \<Rightarrow> int \<Rightarrow> real" where
  "totalCombinedHours totalWorkHours holidayCount =
     fl (totalWorkHours + of_int (totalHolidayHours holidayCount))"

definition remainingHours :: "int \<Rightarrow> int \<Rightarrow> public_holiday list \<Rightarrow> real \<Rightarrow> int \<Rightarrow> real" where
  "remainingHours year month publicHolidays totalWorkHours holidayCount =
     max 0 (fl (of_int (requiredMonthlyHours year month publicHolidays)
                - totalCombinedHours totalWorkHours holidayCount))"

text \<open>\<^verbatim>\<open>Math.round(x * 100) / 100\<close>: the product and the quotient are rounded to doubles.\<close>

definition round2 :: "real \<Rightarrow> real" where
  "round2 x = fl (Math_round (fl (x * 100)) / 100)"

record month_stats =
  ms_totalWorkHours :: real
  ms_holidayCount :: int
  ms_totalHolidayHours :: int
  ms_publicHolidaysCount :: nat
  ms_publicHolidayHours :: int
  ms_totalCombinedHours :: real
  ms_requiredMonthlyHours :: int
  ms_remainingHours :: real

definition monthStats :: "int \<Rightarrow> int \<Rightarrow> real \<Rightarrow> int \<Rightarrow> public_holiday list \<Rightarrow> month_stats" where
  "monthStats year month totalWorkHours holidayCount publicHolidays =
     \<lparr>ms_totalWorkHours = round2 totalWorkHours,
      ms_holidayCount = holidayCount,
      ms_totalHolidayHours = totalHolidayHours holidayCount,
      ms_publicHolidaysCount = length (publicHolidaysOnWorkdays publicHolidays),
      ms_publicHolidayHours = publicHolidayHours publicHolidays,
      ms_totalCombinedHours = round2 (totalCombinedHours totalWorkHours holidayCount),
      ms_requiredMonthlyHours = requiredMonthlyHours year month publicHolidays,
      ms_remainingHours =
        round2 (remainingHours year month publicHolidays totalWorkHours holidayCount)\<rparr>"

section \<open>The grouping views\<close>

subsection \<open>Month and year of the request\<close>

text \<open>
  \<^verbatim>\<open>parseInt(req.query.month) || new Date().getMonth() + 1\<close>: the first argument is what
  \<^verbatim>\<open>parseInt\<close> makes of the query parameter, \<open>None\<close> when it is NaN (the parameter is absent
  or does not start with a number). \<^verbatim>\<open>||\<close> takes its right operand when the left one is
  NaN or 0.
\<close>

definition orDefault :: "int option \<Rightarrow> int \<Rightarrow> int" where
  "orDefault parsed dflt = (case parsed of None \<Rightarrow> dflt | Some n \<Rightarrow> if n = 0 then dflt else n)"

definition requestMonth :: "int option \<Rightarrow> int \<Rightarrow> int" where
  "requestMonth parsed today =
     (let queryMonth = orDefault parsed (getMonth today + 1) in max 1 (min 12 queryMonth))"

definition requestYear :: "int option \<Rightarrow> int \<Rightarrow> int" where
  "requestYear parsed today =
     (let queryYear = orDefault parsed (getFullYear today) in max 2020 (min 2030 queryYear))"

subsection \<open>Grouping by person\<close>

text \<open>
  The records the models hand to the view. A date column comes back as a \<^verbatim>\<open>Date\<close>, which
  the view reads through \<^verbatim>\<open>formatDate\<close> only and which is kept as its local day number; a
  name that is null or empty is the empty string (both are falsy), and a user without a group
  has \<open>group_id = None\<close>.
\<close>

record user =
  user_id :: nat
  user_name :: string
  email :: string
  group_id :: "nat option"

record user_group =
  grp_id :: nat
  grp_name :: string

record holiday =
  h_user_id :: nat
  h_holiday_date :: int

record work_location =
  wl_user_id :: nat
  work_date :: int
  is_onsite :: bool

record employee =
  emp_id :: nat
  emp_name :: string
  emp_email :: string
  emp_holidays :: "string list"
  emp_holidayCount :: nat
  emp_workLocations :: "(string \<times> bool) list"
  emp_remoteDates :: "string list"
  emp_remoteDaysCount :: nat

record group_entry =
  ge_id :: nat
  ge_name :: string
  employees :: "employee list"

text \<open>
  An object with string or user-id keys, where only lookups follow, is an association list
  written with \<open>AList.update\<close> and read with \<open>map_of\<close>. \<open>groupMap\<close> is keyed by group ids
  and read with \<^verbatim>\<open>Object.values\<close>, which lists integer keys in ascending order: it is an
  association list kept in ascending order of its keys.
\<close>

fun obj_put :: "nat \<Rightarrow> 'v \<Rightarrow> (nat \<times> 'v) list \<Rightarrow> (nat \<times> 'v) list" where
  "obj_put k v [] = [(k, v)]"
| "obj_put k v ((k', v') # kvs) =
     (if k < k' then (k, v) # (k', v') # kvs
      else if k = k' then (k, v) # kvs
      else (k', v') # obj_put k v kvs)"

definition holidaysByUser :: "holiday list \<Rightarrow> (nat \<times> holiday list) list" where
  "holidaysByUser allHolidays =
     fold (\<lambda>h m. AList.update (h_user_id h)
                   ((case map_of m (h_user_id h) of None \<Rightarrow> [] | Some hs \<Rightarrow> hs) @ [h]) m)
       allHolidays []"

definition workLocationsByUser :: "work_location list \<Rightarrow> (nat \<times> (string \<times> bool) list) list" where
  "workLocationsByUser allWorkLocations =
     fold (\<lambda>location m. AList.update (wl_user_id location)
                   (AList.update (formatDate (work_date location)) (is_onsite location)
                      (case map_of m (wl_user_id location) of None \<Rightarrow> [] | Some ls \<Rightarrow> ls)) m)
       allWorkLocations []"

definition publicHolidaysMap :: "public_holiday list \<Rightarrow> (string \<times> string) list" where
  "publicHolidaysMap publicHolidaysRaw =
     fold (\<lambda>ph m. AList.update (formatDate (holiday_date ph)) (name ph) m) publicHolidaysRaw []"

definition initialGroupMap :: "user_group list \<Rightarrow> (nat \<times> group_entry) list" where
  "initialGroupMap allGroups =
     obj_put 0 \<lparr>ge_id = 0, ge_name = ''Bez grupy'', employees = []\<rparr>
       (fold (\<lambda>g m. obj_put (grp_id g) \<lparr>ge_id = grp_id g, ge_name = grp_name g, employees = []\<rparr> m)
          allGroups [])"

text \<open>
  The test of the inner loop on one day of the month: the declared location is remote
  (\<^verbatim>\<open>=== false\<close>) and the day is no weekend day, has no truthy entry in the map of public
  holidays and is none of the user's holidays.
\<close>

definition isRemoteWorkDay ::
  "host \<Rightarrow> (string \<times> string) list \<Rightarrow> string list \<Rightarrow> (string \<times> bool) list \<Rightarrow> string \<Rightarrow> bool" where
  "isRemoteWorkDay h phMap holidayDates userWorkLocations dateStr =
     (let dateKey = takeWhile (\<lambda>c. c \<noteq> CHR ''T'') dateStr;
          isWeekend = isWeekendDay (map_option (localDay h) (newDate h dateStr));
          isPublicHoliday = (case map_of phMap dateKey of None \<Rightarrow> False | Some n \<Rightarrow> n \<noteq> []);
          isHoliday = (dateStr \<in> set holidayDates);
          isRemote = (map_of userWorkLocations dateKey = Some False)
      in isRemote \<and> \<not> isWeekend \<and> \<not> isPublicHoliday \<and> \<not> isHoliday)"

definition userHolidayDates :: "(nat \<times> holiday list) list \<Rightarrow> user \<Rightarrow> string list" where
  "userHolidayDates hbu u =
     map (\<lambda>h. formatDate (h_holiday_date h))
       (case map_of hbu (user_id u) of None \<Rightarrow> [] | Some hs \<Rightarrow> hs)"

definition userLocations :: "(nat \<times> (string \<times> bool) list) list \<Rightarrow> user \<Rightarrow> (string \<times> bool) list" where
  "userLocations wbu u = (case map_of wbu (user_id u) of None \<Rightarrow> [] | Some ls \<Rightarrow> ls)"

definition userRemoteDates ::
  "host \<Rightarrow> (string \<times> string) list \<Rightarrow> (nat \<times> holiday list) list \<Rightarrow> (nat \<times> (string \<times> bool) list) list
    \<Rightarrow> string list \<Rightarrow> user \<Rightarrow> string list" where
  "userRemoteDates h phMap hbu wbu daysInMonth u =
     [dateStr \<leftarrow> daysInMonth.
        isRemoteWorkDay h phMap (userHolidayDates hbu u) (userLocations wbu u) dateStr]"

definition employeeData ::
  "host \<Rightarrow> (string \<times> string) list \<Rightarrow> (nat \<times> holiday list) list \<Rightarrow> (nat \<times> (string \<times> bool) list) list
    \<Rightarrow> string list \<Rightarrow> user \<Rightarrow> employee" where
  "employeeData h phMap hbu wbu daysInMonth u =
     \<lparr>emp_id = user_id u,
      emp_name = (if user_name u \<noteq> [] then user_name u
                  else takeWhile (\<lambda>c. c \<noteq> CHR ''@'') (email u)),
      emp_email = email u,
      emp_holidays = userHolidayDates hbu u,
      emp_holidayCount = length (userHolidayDates hbu u),
      emp_workLocations = userLocations wbu u,
      emp_remoteDates = userRemoteDates h phMap hbu wbu daysInMonth u,
      emp_remoteDaysCount = length (userRemoteDates h phMap hbu wbu daysInMonth u)\<rparr>"

text \<open>
  \<^verbatim>\<open>holidayDates.length > 0 || remoteDates.length > 0\<close>, the test for a user to enter the
  view, and \<^verbatim>\<open>user.group_id || 0\<close>, the key of the user's group.
\<close>

definition isIncluded ::
  "host \<Rightarrow> (string \<times> string) list \<Rightarrow> (nat \<times> holiday list) list \<Rightarrow> (nat \<times> (string \<times> bool) list) list
    \<Rightarrow> string list \<Rightarrow> user \<Rightarrow> bool" where
  "isIncluded h phMap hbu wbu daysInMonth u =
     (length (userHolidayDates hbu u) > 0
      \<or> length (userRemoteDates h phMap hbu wbu daysInMonth u) > 0)"

definition userGroupId :: "user \<Rightarrow> nat" where
  "userGroupId u = (case group_id u of None \<Rightarrow> 0 | Some g \<Rightarrow> g)"

text \<open>
  The loop over the users. \<^verbatim>\<open>groupMap[groupId].employees\<close> throws when the map has no such
  group, which is \<open>None\<close>: the \<^verbatim>\<open>catch\<close> of the route renders the error page.
\<close>

fun groupUsers ::
  "host \<Rightarrow> (string \<times> string) list \<Rightarrow> (nat \<times> holiday list) list \<Rightarrow> (nat \<times> (string \<times> bool) list) list
    \<Rightarrow> string list \<Rightarrow> user list \<Rightarrow> (nat \<times> group_entry) list
    \<Rightarrow> (nat \<times> group_entry) list option" where
  "groupUsers h phMap hbu wbu daysInMonth [] groupMap = Some groupMap"
| "groupUsers h phMap hbu wbu daysInMonth (u # users) groupMap =
     (if isIncluded h phMap hbu wbu daysInMonth u then
        (case map_of groupMap (userGroupId u) of
           None \<Rightarrow> None
         | Some g \<Rightarrow>
             groupUsers h phMap hbu wbu daysInMonth users
               (obj_put (userGroupId u)
                  (g\<lparr>employees := employees g @ [employeeData h phMap hbu wbu daysInMonth u]\<rparr>)
                  groupMap))
      else groupUsers h phMap hbu wbu daysInMonth users groupMap)"

text \<open>
  \<^verbatim>\<open>Array.prototype.sort\<close> with a comparator is a stable sort: an element goes before the
  first element it does not compare greater than. \<^verbatim>\<open>String.prototype.localeCompare\<close>
  follows the collation of the host and is the parameter \<open>localeCompare\<close>.
\<close>

definition groupCompare :: "(string \<Rightarrow> string \<Rightarrow> int) \<Rightarrow> group_entry \<Rightarrow> group_entry \<Rightarrow> int" where
  "groupCompare localeCompare a b =
     (if ge_id a = 0 then 1
      else if ge_id b = 0 then - 1
      else localeCompare (ge_name a) (ge_name b))"

fun insertSorted :: "('a \<Rightarrow> 'a \<Rightarrow> int) \<Rightarrow> 'a \<Rightarrow> 'a list \<Rightarrow> 'a list" where
  "insertSorted cmp x [] = [x]"
| "insertSorted cmp x (y # ys) =
     (if cmp x y \<le> 0 then x # y # ys else y # insertSorted cmp x ys)"

definition array_sort :: "('a \<Rightarrow> 'a \<Rightarrow> int) \<Rightarrow> 'a list \<Rightarrow> 'a list" where
  "array_sort cmp xs = foldr (insertSorted cmp) xs []"

text \<open>
  A collation for concrete runs: the comparison of two strings character by character, by
  character code, as \<^verbatim>\<open>localeCompare\<close> orders plain capitalised names.
\<close>

fun codeCompare :: "string \<Rightarrow> string \<Rightarrow> int" where
  "codeCompare [] [] = 0"
| "codeCompare [] (b # bs) = - 1"
| "codeCompare (a # as) [] = 1"
| "codeCompare (a # as) (b # bs) =
     (if (of_char a :: nat) < of_char b then - 1
      else if (of_char b :: nat) < of_char a then 1
      else codeCompare as bs)"

record by_person_view =
  groupedEmployees :: "group_entry list"
  totalEmployeesWithHolidays :: nat
  totalEmployeesWithRemoteWork :: nat

text \<open>
  The route from the fetched records to the values it renders. \<open>daysInMonth\<close> is the list
  of the formatted days of the month, which the route has built before the loop over the
  users.
\<close>

definition by_person ::
  "host \<Rightarrow> (string \<Rightarrow> string \<Rightarrow> int) \<Rightarrow> user list \<Rightarrow> user_group list \<Rightarrow> public_holiday list
    \<Rightarrow> holiday list \<Rightarrow> work_location list \<Rightarrow> string list \<Rightarrow> by_person_view option" where
  "by_person h localeCompare allUsers allGroups publicHolidaysRaw allHolidays allWorkLocations
      daysInMonth =
     (case groupUsers h (publicHolidaysMap publicHolidaysRaw) (holidaysByUser allHolidays)
             (workLocationsByUser allWorkLocations) daysInMonth allUsers
             (initialGroupMap allGroups) of
        None \<Rightarrow> None
      | Some groupMap \<Rightarrow>
          (let grouped = array_sort (groupCompare localeCompare)
                           [g \<leftarrow> map snd groupMap. length (employees g) > 0];
               everyone = concat (map employees grouped)
           in Some \<lparr>groupedEmployees = grouped,
                    totalEmployeesWithHolidays = length [e \<leftarrow> everyone. emp_holidayCount e > 0],
                    totalEmployeesWithRemoteWork = length [e \<leftarrow> everyone. emp_remoteDaysCount e > 0]\<rparr>))"

subsection \<open>A small directory for concrete runs\<close>

text \<open>
  Three groups, one of them without a qualifying user, and four users, one of them without
  a group; 19844 is Wednesday 2024-05-01 and 19846 is Friday 2024-05-03.
\<close>

definition demoGroups :: "user_group list" where
  "demoGroups =
     [\<lparr>grp_id = 1, grp_name = ''Zeta''\<rparr>, \<lparr>grp_id = 2, grp_name = ''Alpha''\<rparr>,
      \<lparr>grp_id = 3, grp_name = ''Empty''\<rparr>]"

definition demoUsers :: "user list" where
  "demoUsers =
     [\<lparr>user_id = 1, user_name = ''Ann'', email = ''ann@example.org'', group_id = Some 1\<rparr>,
      \<lparr>user_id = 2, user_name = ''Bob'', email = ''bob@example.org'', group_id = Some 2\<rparr>,
      \<lparr>user_id = 3, user_name = [], email = ''cy@example.org'', group_id = None\<rparr>,
      \<lparr>user_id = 4, user_name = ''Dee'', email = ''dee@example.org'', group_id = Some 3\<rparr>]"

definition demoHolidays :: "holiday list" where
  "demoHolidays =
     [\<lparr>h_user_id = 1, h_holiday_date = 19846\<rparr>, \<lparr>h_user_id = 2, h_holiday_date = 19846\<rparr>,
      \<lparr>h_user_id = 3, h_holiday_date = 19846\<rparr>]"

section \<open>Facts about the calendar\<close>

text \<open>
  \<open>civil\<close> undoes \<open>MakeDay\<close>: the year, month and day that are read off a day number
  make that day number again, with the month from 1 to 12 and the day from 1 to 31.
\<close>

lemma div_bounds:
  fixes x k :: int
  assumes "0 < k"
  shows "k * (x div k) \<le> x" and "x < k * (x div k) + k"
proof -
  have e: "x = k * (x div k) + x mod k" by simp
  have "0 \<le> x mod k" "x mod k < k" using assms by simp_all
  with e show "k * (x div k) \<le> x" and "x < k * (x div k) + k" by linarith+
qed

lemma div_unique_int:
  fixes x k n :: int
  assumes "0 < k" "k * n \<le> x" "x < k * n + k"
  shows "x div k = n"
proof -
  have "x = n * k + (x - k * n)" by (simp add: algebra_simps)
  moreover have "0 \<le> x - k * n" "x - k * n < k" using assms by simp_all
  ultimately show ?thesis
    by (metis div_pos_pos_trivial div_mult_self4 add.commute add_0 assms(1) less_irrefl mult.commute)
qed

lemma civil_parts:
  fixes z :: int
  assumes "era = z div 146097"
    and "doe = z mod 146097"
    and "c = min 3 (doe div 36524)"
    and "r = doe - 36524 * c"
    and "q = r div 1461"
    and "s = r mod 1461"
    and "a = min 3 (s div 365)"
    and "doy = s - 365 * a"
    and "mp = (5 * doy + 2) div 153"
  shows "0 \<le> c" "c \<le> 3" "0 \<le> q" "q \<le> 24" "0 \<le> a" "a \<le> 3" "0 \<le> doy" "doy \<le> 365"
    "0 \<le> mp" "mp \<le> 11" "z = 146097 * era + 36524 * c + 1461 * q + 365 * a + doy"
proof -
  have doe: "0 \<le> doe" "doe < 146097" "z = 146097 * era + doe"
    by (simp_all add: assms(1,2))
  note b1 = div_bounds [of 36524 doe, simplified]
  show c: "0 \<le> c" "c \<le> 3" using doe by (simp_all add: assms(3))
  have r: "0 \<le> r" "r \<le> 36524"
    using doe b1 unfolding assms(3,4) min_def by (simp_all split: if_splits)
  note b2 = div_bounds [of 1461 r, simplified]
  show q: "0 \<le> q" "q \<le> 24" using r b2 unfolding assms(5) by linarith+
  have s: "0 \<le> s" "s < 1461" "r = 1461 * q + s" by (simp_all add: assms(5,6))
  note b3 = div_bounds [of 365 s, simplified]
  show a: "0 \<le> a" "a \<le> 3" using s by (simp_all add: assms(7))
  show doy: "0 \<le> doy" "doy \<le> 365"
    using s b3 unfolding assms(7,8) min_def by (simp_all split: if_splits)
  note b4 = div_bounds [of 153 "5 * doy + 2", simplified]
  show mp: "0 \<le> mp" "mp \<le> 11" using doy b4 unfolding assms(9) by linarith+
  show "z = 146097 * era + 36524 * c + 1461 * q + 365 * a + doy"
    using doe(3) s(3) assms(4,8) by linarith
qed

lemma MakeDay_civil:
  assumes "civil t = (y, m, d)"
  shows "MakeDay y m d = t" and "1 \<le> m" and "m \<le> 12" and "1 \<le> d" and "d \<le> 31"
proof -
  define z where "z = t + 719468"
  define era where "era = z div 146097"
  define doe where "doe = z mod 146097"
  define c where "c = min 3 (doe div 36524)"
  define r where "r = doe - 36524 * c"
  define q where "q = r div 1461"
  define s where "s = r mod 1461"
  define a where "a = min 3 (s div 365)"
  define doy where "doy = s - 365 * a"
  define mp where "mp = (5 * doy + 2) div 153"
  define w where "w = (153 * mp + 2) div 5"
  define yy where "yy = 400 * era + 100 * c + 4 * q + a"
  note P = civil_parts [OF era_def doe_def c_def r_def q_def s_def a_def doy_def mp_def]
  have "civil t = (if (if mp < 10 then mp + 3 else mp - 9) \<le> 2 then yy + 1 else yy,
      if mp < 10 then mp + 3 else mp - 9, doy - w + 1)"
    unfolding civil_def Let_def z_def era_def doe_def c_def r_def q_def s_def a_def doy_def mp_def w_def yy_def
    by (rule refl)
  with assms have m: "m = (if mp < 10 then mp + 3 else mp - 9)"
    and d: "d = doy - w + 1"
    and y: "y = (if m \<le> 2 then yy + 1 else yy)"
    by auto
  show m1: "1 \<le> m" and m12: "m \<le> 12" using P(9,10) m by (simp_all split: if_splits)
  note bw = div_bounds [of 5 "153 * mp + 2", simplified, folded w_def]
  note bm = div_bounds [of 153 "5 * doy + 2", simplified, folded mp_def]
  show "1 \<le> d" and "d \<le> 31" using bw bm unfolding d by linarith+
  have y': "(if m \<le> 2 then y - 1 else y) = yy" using y by simp
  have mp': "(if m > 2 then m - 3 else m + 9) = mp" using m P(9,10) by (simp split: if_splits)
  have era': "yy div 400 = era"
    by (rule div_unique_int) (use P in \<open>simp_all add: yy_def\<close>)
  have "yy = 400 * (yy div 400) + yy mod 400" by simp
  then have yoe: "yy mod 400 = 100 * c + 4 * q + a"
    unfolding era' by (simp add: yy_def)
  have y4: "(100 * c + 4 * q + a) div 4 = 25 * c + q"
    by (rule div_unique_int) (use P in simp_all)
  have y100: "(100 * c + 4 * q + a) div 100 = c"
    by (rule div_unique_int) (use P in simp_all)
  have doy': "w + d - 1 = doy" using d by simp
  show "MakeDay y m d = t"
    unfolding MakeDay_def Let_def y' mp' era' yoe y4 y100
    using P(11) doy' by (simp add: z_def w_def)
qed


lemma civil_year_range:
  assumes "civil t = (y, m, d)" and "- 719528 \<le> t" and "t \<le> 2932896"
  shows "0 \<le> y" and "y \<le> 9999"
proof -
  define z where "z = t + 719468"
  define era where "era = z div 146097"
  define doe where "doe = z mod 146097"
  define c where "c = min 3 (doe div 36524)"
  define r where "r = doe - 36524 * c"
  define q where "q = r div 1461"
  define s where "s = r mod 1461"
  define a where "a = min 3 (s div 365)"
  define doy where "doy = s - 365 * a"
  define mp where "mp = (5 * doy + 2) div 153"
  define yy where "yy = 400 * era + 100 * c + 4 * q + a"
  note P = civil_parts [OF era_def doe_def c_def r_def q_def s_def a_def doy_def mp_def]
  have "civil t = (if (if mp < 10 then mp + 3 else mp - 9) \<le> 2 then yy + 1 else yy,
      if mp < 10 then mp + 3 else mp - 9,
      doy - (153 * mp + 2) div 5 + 1)"
    unfolding civil_def Let_def z_def era_def doe_def c_def r_def q_def s_def a_def doy_def mp_def yy_def
    by (rule refl)
  with assms(1) have y: "y = (if 10 \<le> mp then yy + 1 else yy)"
    using P(9,10) by (auto split: if_splits)
  note bm = div_bounds [of 153 "5 * doy + 2", simplified, folded mp_def]
  have zr: "- 60 \<le> z" "z \<le> 3652364" using assms(2,3) by (simp_all add: z_def)
  have e: "- 1 \<le> era" "era \<le> 24" using zr P by linarith+
  show "0 \<le> y"
  proof -
    consider (neg) "era = - 1" | (pos) "0 \<le> era" using e by linarith
    then show ?thesis
    proof cases
      case neg
      have "c = 3" using neg zr P by linarith
      moreover have "q = 24" using neg zr P \<open>c = 3\<close> by linarith
      moreover have "a = 3" using neg zr P \<open>c = 3\<close> \<open>q = 24\<close> by linarith
      moreover have "306 \<le> doy" using neg zr P \<open>c = 3\<close> \<open>q = 24\<close> \<open>a = 3\<close> by linarith
      then have "10 \<le> mp" using bm by linarith
      ultimately show ?thesis using neg by (simp add: y yy_def)
    next
      case pos
      then show ?thesis using P by (simp add: y yy_def)
    qed
  qed
  show "y \<le> 9999"
  proof -
    consider (top) "yy = 9999" | (low) "yy \<le> 9998" using e P unfolding yy_def by linarith
    then show ?thesis
    proof cases
      case top
      then have "era = 24" "c = 3" "q = 24" "a = 3" using e P unfolding yy_def by linarith+
      then have "doy \<le> 305" using zr P by linarith
      then have "mp \<le> 9" using bm by linarith
      then show ?thesis using top by (simp add: y)
    next
      case low
      then show ?thesis by (simp add: y)
    qed
  qed
qed

lemma MakeDay_range:
  assumes "0 \<le> y" "y \<le> 9999" "1 \<le> m" "m \<le> 12" "1 \<le> d" "d \<le> 31"
  shows "- 719528 \<le> MakeDay y m d" and "MakeDay y m d \<le> 2932896"
proof -
  define yy where "yy = (if m \<le> 2 then y - 1 else y)"
  define mp where "mp = (if m > 2 then m - 3 else m + 9)"
  define era where "era = yy div 400"
  define yoe where "yoe = yy mod 400"
  define w where "w = (153 * mp + 2) div 5"
  define f where "f = yoe div 4"
  define h where "h = yoe div 100"
  have M: "MakeDay y m d = era * 146097 + (365 * yoe + f - h + (w + d - 1)) - 719468"
    unfolding MakeDay_def Let_def yy_def mp_def era_def yoe_def w_def f_def h_def by (rule refl)
  have yoe: "0 \<le> yoe" "yoe < 400" "yy = 400 * era + yoe" by (simp_all add: yoe_def era_def)
  note bf = div_bounds [of 4 yoe, simplified, folded f_def]
  note bh = div_bounds [of 100 yoe, simplified, folded h_def]
  note bw = div_bounds [of 5 "153 * mp + 2", simplified, folded w_def]
  have mp: "0 \<le> mp" "mp \<le> 11" using assms by (simp_all add: mp_def)
  have yyr: "- 1 \<le> yy" "yy \<le> 9999" using assms by (simp_all add: yy_def)
  have e: "- 1 \<le> era" "era \<le> 24" using yyr yoe by linarith+
  show "- 719528 \<le> MakeDay y m d"
  proof -
    consider (neg) "era = - 1" | (pos) "0 \<le> era" using e by linarith
    then show ?thesis
    proof cases
      case neg
      then have "yoe = 399" using yyr yoe by linarith
      moreover have "m \<le> 2" using neg yoe yyr assms by (simp add: yy_def split: if_splits)
      then have "10 \<le> mp" using assms by (simp add: mp_def)
      then have "306 \<le> w" using bw by linarith
      moreover have "f = 99" "h = 3" using bf bh \<open>yoe = 399\<close> by linarith+
      ultimately show ?thesis unfolding M using neg assms by linarith
    next
      case pos
      have "h \<le> f" using bf bh yoe by linarith
      moreover have "0 \<le> w" using bw mp by linarith
      ultimately show ?thesis unfolding M using pos yoe assms by linarith
    qed
  qed
  show "MakeDay y m d \<le> 2932896"
  proof -
    consider (top) "yy = 9999" | (low) "yy \<le> 9998" using yyr by linarith
    then show ?thesis
    proof cases
      case top
      then have "era = 24" "yoe = 399" using e yoe by linarith+
      moreover have "2 < m" using top assms by (simp add: yy_def split: if_splits)
      then have "mp \<le> 9" using assms by (simp add: mp_def)
      then have "w \<le> 275" using bw by linarith
      moreover have "f = 99" "h = 3" using bf bh \<open>yoe = 399\<close> by linarith+
      ultimately show ?thesis unfolding M using assms by linarith
    next
      case low
      have "f \<le> 99" "0 \<le> h" using bf bh yoe by linarith+
      moreover have "w \<le> 337" using bw mp by linarith
      moreover have "era \<le> 23 \<or> yoe \<le> 398" using low yoe e by linarith
      ultimately show ?thesis unfolding M using e yoe assms by linarith
    qed
  qed
qed

text \<open>
  The canonical form can be read back: within the years 0 to 9999 \<^verbatim>\<open>new Date\<close> of the
  formatted day is that day, and every date that \<^verbatim>\<open>new Date\<close> reads lies in these years.
\<close>

lemma digit_val_nth:
  assumes "j < 10"
  shows "digit_val (''0123456789'' ! j) = Some j"
  using assms by (auto simp: digit_val_def numeral_eq_Suc less_Suc_eq)

lemma digit_val_digit_char: "digit_val (digit_char k) = Some (k mod 10)"
  unfolding digit_char_def by (rule digit_val_nth) simp

lemma digits_val_pad2:
  assumes "n < 100"
  shows "digits_val 0 (pad2 n) = Some n"
proof -
  have "n div 10 < 10" using assms by simp
  then have "10 * (n div 10 mod 10) + n mod 10 = n" by simp
  then show ?thesis by (simp add: pad2_def digit_val_digit_char)
qed

lemma digits_val_pad4:
  assumes "n < 10000"
  shows "digits_val 0 (pad4 n) = Some n"
proof -
  have a: "n div 1000 < 10" using assms by simp
  have b: "n div 100 div 10 = n div 1000" and c: "n div 10 div 10 = n div 100"
    by (simp_all add: div_mult2_eq [symmetric])
  have e1: "n = 10 * (n div 10) + n mod 10" by simp
  have e2: "n div 10 = 10 * (n div 100) + n div 10 mod 10"
    using div_mult_mod_eq [of "n div 10" 10] unfolding c by simp
  have e3: "n div 100 = 10 * (n div 1000) + n div 100 mod 10"
    using div_mult_mod_eq [of "n div 100" 10] unfolding b by simp
  have e4: "n div 1000 mod 10 = n div 1000" using a by simp
  have "10 * (10 * (10 * (n div 1000 mod 10) + n div 100 mod 10) + n div 10 mod 10) + n mod 10 = n"
    unfolding e4 e3 [symmetric] e2 [symmetric] e1 [symmetric] by (rule refl)
  then show ?thesis using e4 by (simp add: pad4_def digit_val_digit_char)
qed


lemma parseIsoDate_formatDate:
  assumes "- 719528 \<le> t" and "t \<le> 2932896"
  shows "parseIsoDate (formatDate t) = Some t"
proof -
  obtain y m d where c: "civil t = (y, m, d)" using prod_cases3 by blast
  note r = MakeDay_civil [OF c] civil_year_range [OF c assms]
  have y: "nat y < 10000" "int (nat y) = y" using r by simp_all
  have m: "nat m < 100" "int (nat m) = m" "1 \<le> nat m" "nat m \<le> 12" using r by simp_all
  have d: "nat d < 100" "int (nat d) = d" "1 \<le> nat d" "nat d \<le> 31" using r by simp_all
  have "parseIsoDate (formatDate t) = Some (MakeDay y m d)"
    unfolding formatDate_def c
    using digits_val_pad4 [OF y(1)] digits_val_pad2 [OF m(1)] digits_val_pad2 [OF d(1)] y m d
    by (simp add: pad4_def pad2_def)
  then show ?thesis using r(1) by simp
qed

lemma digit_val_less:
  assumes "digit_val c = Some v"
  shows "v < 10"
  using assms by (auto simp: digit_val_def split: if_splits)

lemma digits_val_4_less:
  assumes "digits_val 0 [a, b, c, d] = Some y"
  shows "y < 10000"
  using assms by (auto split: option.splits dest!: digit_val_less)

lemma parseIsoDate_Some:
  assumes "parseIsoDate s = Some t"
  shows "\<exists>y m d. t = MakeDay (int y) (int m) (int d)
      \<and> 1 \<le> m \<and> m \<le> 12 \<and> 1 \<le> d \<and> d \<le> 31 \<and> y < 10000"
proof (cases s rule: parseIsoDate.cases)
  case (1 y1 y2 y3 y4 h1 m1 m2 h2 d1 d2)
  from assms obtain y m d where
    p: "digits_val 0 [y1, y2, y3, y4] = Some y" "digits_val 0 [m1, m2] = Some m"
       "digits_val 0 [d1, d2] = Some d"
    and b: "1 \<le> m" "m \<le> 12" "1 \<le> d" "d \<le> 31"
    and t: "t = MakeDay (int y) (int m) (int d)"
    unfolding 1 parseIsoDate.simps by (auto split: if_splits option.splits)
  from digits_val_4_less [OF p(1)] b t show ?thesis by blast
qed (use assms in simp_all)

lemma parseIsoDate_range:
  assumes "parseIsoDate s = Some t"
  shows "- 719528 \<le> t" and "t \<le> 2932896"
proof -
  from parseIsoDate_Some [OF assms] obtain y m d :: nat where t: "t = MakeDay (int y) (int m) (int d)"
    and b: "1 \<le> m" "m \<le> 12" "1 \<le> d" "d \<le> 31" "y < 10000"
    by blast
  show "- 719528 \<le> t" and "t \<le> 2932896"
    unfolding t using MakeDay_range [of "int y" "int m" "int d"] b by simp_all
qed

lemma formatDate_inj:
  assumes "- 719528 \<le> s" "s \<le> 2932896" "- 719528 \<le> t" "t \<le> 2932896"
    and "formatDate s = formatDate t"
  shows "s = t"
proof -
  have "Some s = parseIsoDate (formatDate s)" using parseIsoDate_formatDate [OF assms(1,2)] by simp
  also have "\<dots> = parseIsoDate (formatDate t)" by (simp only: assms(5))
  also have "\<dots> = Some t" by (rule parseIsoDate_formatDate [OF assms(3,4)])
  finally show ?thesis by simp
qed

declare parseIsoDate.simps [simp del]

section \<open>Stepping a date by a day\<close>

text \<open>
  \<^verbatim>\<open>setDate(getDate() + 1)\<close> moves the local time value on by one day and takes it back to
  UTC, so the time value moves on by at least 23 hours and the loop of the generator ends.
\<close>

lemma MakeDay_succ: "MakeDay y m (d + 1) = MakeDay y m d + 1"
  by (simp add: MakeDay_def Let_def)

lemma Day_TimeWithinDay: "Day t * msPerDay + TimeWithinDay t = t"
  by (simp add: Day_def TimeWithinDay_def)

lemma setDate_next:
  "setDate h t (getDate (localDay h t) + 1) = UTC h (LocalTime h t + msPerDay)"
proof -
  obtain y m d where c: "civil (localDay h t) = (y, m, d)" using prod_cases3 by blast
  have "MakeDay y m (d + 1) = localDay h t + 1"
    using MakeDay_civil(1) [OF c] by (simp add: MakeDay_succ)
  then have "MakeDay y m (d + 1) * msPerDay + TimeWithinDay (LocalTime h t)
      = LocalTime h t + msPerDay"
    using Day_TimeWithinDay [of "LocalTime h t"] by (simp add: localDay_def algebra_simps)
  then show ?thesis by (simp add: setDate_def getDate_def c)
qed

lemma setDate_next_ge: "t + 82800000 \<le> setDate h t (getDate (localDay h t) + 1)"
  unfolding setDate_next by (simp add: UTC_def LocalTime_def LocalTZA_def msPerDay_def msPerHour_def)

termination generateDateRange_loop
proof (relation "measure (\<lambda>(h, p, lastDate, currentDate, dates). nat (lastDate + 1 - currentDate))")
  show "wf (measure (\<lambda>(h, p, lastDate, currentDate, dates). nat (lastDate + 1 - currentDate)))"
    by simp
next
  fix h :: host and publicHolidayDates :: "string list" and lastDate currentDate :: int
    and dates :: "string list"
  assume "currentDate \<le> lastDate"
  then show "((h, publicHolidayDates, lastDate,
        setDate h currentDate (getDate (localDay h currentDate) + 1),
        if getDay (localDay h currentDate) \<noteq> 0 \<and> getDay (localDay h currentDate) \<noteq> 6
            \<and> formatDate (localDay h currentDate) \<notin> set publicHolidayDates
        then dates @ [formatDate (localDay h currentDate)] else dates),
       h, publicHolidayDates, lastDate, currentDate, dates)
      \<in> measure (\<lambda>(h, p, lastDate, currentDate, dates). nat (lastDate + 1 - currentDate))"
    using setDate_next_ge [of currentDate h] by simp
qed

declare generateDateRange_loop.simps [simp del]

section \<open>The business-day generator on a host with a fixed offset\<close>

text \<open>
  On a host that keeps one offset from UTC all year, not behind UTC and less than a day ahead
  of it, midnight UTC of a day lies on that day in local time and a step of the loop is a step
  of 24 hours: the loop visits the days from the first to the last.
\<close>

lemma fixed_LocalTime:
  assumes "\<And>t. \<not> daylightAtUTC h t"
  shows "LocalTime h t = t + standardOffset h"
  using assms by (simp add: LocalTime_def LocalTZA_def)

lemma fixed_UTC:
  assumes "\<And>t. \<not> daylightAtLocal h t"
  shows "UTC h t = t - standardOffset h"
  using assms by (simp add: UTC_def LocalTZA_def)

lemma fixed_localDay:
  assumes "\<And>t. \<not> daylightAtUTC h t" and "0 \<le> standardOffset h" and "standardOffset h < msPerDay"
  shows "localDay h (a * msPerDay) = a"
proof -
  have "(a * msPerDay + standardOffset h) div msPerDay = a"
    by (rule div_unique_int) (use assms(2,3) in \<open>simp_all add: msPerDay_def\<close>)
  then show ?thesis by (simp add: localDay_def Day_def fixed_LocalTime [OF assms(1)])
qed

lemma fixed_step:
  assumes "\<And>t. \<not> daylightAtUTC h t" and "\<And>t. \<not> daylightAtLocal h t"
  shows "setDate h t (getDate (localDay h t) + 1) = t + msPerDay"
  unfolding setDate_next by (simp add: fixed_LocalTime [OF assms(1)] fixed_UTC [OF assms(2)])

lemma generateDateRange_loop_eq:
  assumes "\<And>t. \<not> daylightAtUTC h t" and "\<And>t. \<not> daylightAtLocal h t"
    and "0 \<le> standardOffset h" and "standardOffset h < msPerDay"
  shows "generateDateRange_loop h phd (b * msPerDay) (a * msPerDay) dates =
     dates @ map formatDate
       [t \<leftarrow> [a..b]. getDay t \<noteq> 0 \<and> getDay t \<noteq> 6 \<and> formatDate t \<notin> set phd]"
proof (induction "nat (b + 1 - a)" arbitrary: a dates)
  case 0
  then have "\<not> a * msPerDay \<le> b * msPerDay" by (simp add: msPerDay_def)
  moreover have "[a..b] = []" using 0 by simp
  ultimately show ?case by (subst generateDateRange_loop.simps) simp
next
  case (Suc n)
  then have le: "a \<le> b" by simp
  then have c: "a * msPerDay \<le> b * msPerDay" by (simp add: msPerDay_def)
  have u: "[a..b] = a # [a + 1..b]" using le by (simp add: upto_rec1)
  have n: "n = nat (b + 1 - (a + 1))" using Suc(2) by simp
  have ld: "localDay h (a * msPerDay) = a" by (rule fixed_localDay [OF assms(1,3,4)])
  have s: "setDate h (a * msPerDay) (getDate a + 1) = (a + 1) * msPerDay"
    using fixed_step [OF assms(1,2), of "a * msPerDay"] unfolding ld by (simp add: algebra_simps)
  show ?case
    by (subst generateDateRange_loop.simps) (simp add: c s u ld Suc(1) [OF n])
qed

lemma sorted_wrt_upto: "sorted_wrt (<) [i..j]"
  by (induction i j rule: upto.induct) (subst upto.simps, auto)

lemma generateDateRange_eq:
  assumes "\<And>t. \<not> daylightAtUTC h t" and "\<And>t. \<not> daylightAtLocal h t"
    and "0 \<le> standardOffset h" and "standardOffset h < msPerDay"
    and "parseIsoDate startDate = Some a" and "parseIsoDate endDate = Some b"
  shows "generateDateRange h startDate endDate publicHolidays =
           map formatDate
             [t \<leftarrow> [a..b]. getDay t \<noteq> 0 \<and> getDay t \<noteq> 6
                \<and> formatDate t \<notin> (\<lambda>ph. formatDate (holiday_date ph)) ` set publicHolidays]"
  by (simp add: generateDateRange_def newDate_def assms(5,6)
      generateDateRange_loop_eq [OF assms(1-4)])

text \<open>
  On such a host, for an interval whose ends are written in the date-only form as the days
  \<open>a\<close> and \<open>b\<close>, and any list of public holidays, \<open>generateDateRange\<close> returns the
  canonical forms of exactly the days from \<open>a\<close> to \<open>b\<close> inclusive that are no Sunday (0),
  no Saturday (6) and whose canonical form is not the canonical form of one of the public
  holidays; the days come in strictly ascending order, the returned list has no duplicates,
  and an interval of weekend days only gives the empty list, which is an ordinary result.
\<close>

lemma generateDateRange_business_days:
  assumes "\<And>t. \<not> daylightAtUTC h t" and "\<And>t. \<not> daylightAtLocal h t"
    and "0 \<le> standardOffset h" and "standardOffset h < msPerDay"
    and "parseIsoDate startDate = Some a" and "parseIsoDate endDate = Some b"
  shows "generateDateRange h startDate endDate publicHolidays =
           map formatDate
             [t \<leftarrow> [a..b]. getDay t \<noteq> 0 \<and> getDay t \<noteq> 6
                \<and> formatDate t \<notin> (\<lambda>ph. formatDate (holiday_date ph)) ` set publicHolidays]
       \<and> sorted_wrt (<) [t \<leftarrow> [a..b]. getDay t \<noteq> 0 \<and> getDay t \<noteq> 6
                \<and> formatDate t \<notin> (\<lambda>ph. formatDate (holiday_date ph)) ` set publicHolidays]
       \<and> distinct (generateDateRange h startDate endDate publicHolidays)
       \<and> ((\<forall>t. a \<le> t \<and> t \<le> b \<longrightarrow> getDay t = 0 \<or> getDay t = 6)
            \<longrightarrow> generateDateRange h startDate endDate publicHolidays = [])"
proof -
  let ?P = "\<lambda>t. getDay t \<noteq> 0 \<and> getDay t \<noteq> 6
      \<and> formatDate t \<notin> (\<lambda>ph. formatDate (holiday_date ph)) ` set publicHolidays"
  have g: "generateDateRange h startDate endDate publicHolidays = map formatDate (filter ?P [a..b])"
    by (rule generateDateRange_eq [OF assms])
  have s: "sorted_wrt (<) (filter ?P [a..b])"
    by (rule sorted_wrt_filter) (rule sorted_wrt_upto)
  have r: "- 719528 \<le> a" "b \<le> 2932896"
    using parseIsoDate_range [OF assms(5)] parseIsoDate_range [OF assms(6)] by simp_all
  have "inj_on formatDate (set (filter ?P [a..b]))"
  proof (rule inj_onI)
    fix s t
    assume "s \<in> set (filter ?P [a..b])" "t \<in> set (filter ?P [a..b])"
      and e: "formatDate s = formatDate t"
    then have "a \<le> s" "s \<le> b" "a \<le> t" "t \<le> b" by simp_all
    with r have "- 719528 \<le> s" "s \<le> 2932896" "- 719528 \<le> t" "t \<le> 2932896" by linarith+
    then show "s = t" using e by (rule formatDate_inj)
  qed
  moreover have "distinct (filter ?P [a..b])" by simp
  ultimately have d: "distinct (map formatDate (filter ?P [a..b]))"
    by (simp add: distinct_map)
  have w: "(\<forall>t. a \<le> t \<and> t \<le> b \<longrightarrow> getDay t = 0 \<or> getDay t = 6)
      \<longrightarrow> generateDateRange h startDate endDate publicHolidays = []"
    unfolding g by (auto simp: filter_empty_conv)
  show ?thesis using g s d w by simp
qed

subsection \<open>Concrete days\<close>

lemma parseIsoDate_examples:
  "parseIsoDate ''2024-05-01'' = Some 19844"
  "parseIsoDate ''2024-05-03'' = Some 19846"
  "parseIsoDate ''2024-05-04'' = Some 19847"
  "parseIsoDate ''2024-05-05'' = Some 19848"
  "parseIsoDate ''2024-05-06'' = Some 19849"
  "parseIsoDate ''2024-05-07'' = Some 19850"
  "parseIsoDate ''2024-10-25'' = Some 20021"
  "parseIsoDate ''2024-10-28'' = Some 20024"
  "parseIsoDate ''abc'' = None"
  "parseIsoDate ''soon'' = None"
  by (simp_all add: parseIsoDate.simps digit_val_def MakeDay_def)

lemma formatDate_examples:
  "formatDate 19844 = ''2024-05-01''"
  "formatDate 19846 = ''2024-05-03''"
  "formatDate 19847 = ''2024-05-04''"
  "formatDate 19848 = ''2024-05-05''"
  "formatDate 19849 = ''2024-05-06''"
  "formatDate 19850 = ''2024-05-07''"
  "formatDate 20021 = ''2024-10-25''"
  "formatDate 20024 = ''2024-10-28''"
  unfolding formatDate_def civil_def Let_def pad4_def pad2_def
  by (simp_all add: digit_char_def)

lemma getDay_examples:
  "getDay 19844 = 3" "getDay 19846 = 5" "getDay 19847 = 6" "getDay 19848 = 0"
  "getDay 19849 = 1" "getDay 19850 = 2"
  "getDay 20021 = 5" "getDay 20022 = 6" "getDay 20023 = 0" "getDay 20024 = 1"
  by (simp_all add: getDay_def)

lemma utcHost_fixed:
  "\<not> daylightAtUTC utcHost t" "\<not> daylightAtLocal utcHost t"
  "0 \<le> standardOffset utcHost" "standardOffset utcHost < msPerDay"
  by (simp_all add: utcHost_def msPerDay_def)

lemma utcHost_localDay: "localDay utcHost (a * msPerDay) = a"
  by (rule fixed_localDay) (rule utcHost_fixed)+

lemma newDate_iso:
  assumes "parseIsoDate s = Some a"
  shows "newDate h s = Some (a * msPerDay)"
  using assms by (simp add: newDate_def)

lemma newDate_utcHost_None:
  assumes "parseIsoDate s = None"
  shows "newDate utcHost s = None"
  using assms by (simp add: newDate_def utcHost_def)

lemma generateDateRange_utc_examples:
  "generateDateRange utcHost ''2024-05-03'' ''2024-05-07'' [\<lparr>holiday_date = 19849, name = ''Monday''\<rparr>]
     = [''2024-05-03'', ''2024-05-07'']"
  "generateDateRange utcHost ''2024-05-04'' ''2024-05-05'' [] = []"
  "generateDateRange utcHost ''2024-05-03'' ''2024-05-05'' [] = [''2024-05-03'']"
  "generateDateRange utcHost ''2024-10-25'' ''2024-10-28'' [] = [''2024-10-25'', ''2024-10-28'']"
proof -
  have u: "[19846..19850::int] = [19846, 19847, 19848, 19849, 19850]"
    "[19847..19848::int] = [19847, 19848]" "[19846..19848::int] = [19846, 19847, 19848]"
    "[20021..20024::int] = [20021, 20022, 20023, 20024]"
    by (simp_all add: upto_rec1)
  show "generateDateRange utcHost ''2024-05-03'' ''2024-05-07''
      [\<lparr>holiday_date = 19849, name = ''Monday''\<rparr>] = [''2024-05-03'', ''2024-05-07'']"
    using generateDateRange_eq [OF utcHost_fixed parseIsoDate_examples(2) parseIsoDate_examples(6),
        of "[\<lparr>holiday_date = 19849, name = ''Monday''\<rparr>]"]
    by (simp add: u getDay_examples formatDate_examples)
  show "generateDateRange utcHost ''2024-05-04'' ''2024-05-05'' [] = []"
    using generateDateRange_eq [OF utcHost_fixed parseIsoDate_examples(3) parseIsoDate_examples(4), of "[]"]
    by (simp add: u getDay_examples formatDate_examples)
  show "generateDateRange utcHost ''2024-05-03'' ''2024-05-05'' [] = [''2024-05-03'']"
    using generateDateRange_eq [OF utcHost_fixed parseIsoDate_examples(2) parseIsoDate_examples(4), of "[]"]
    by (simp add: u getDay_examples formatDate_examples)
  show "generateDateRange utcHost ''2024-10-25'' ''2024-10-28'' [] = [''2024-10-25'', ''2024-10-28'']"
    using generateDateRange_eq [OF utcHost_fixed parseIsoDate_examples(7) parseIsoDate_examples(8), of "[]"]
    by (simp add: u getDay_examples formatDate_examples)
qed

section \<open>The business-day generator across the end of daylight saving time\<close>

lemma warsaw_localDay:
  "localDay warsawHost 1729814400000 = 20021"
  "localDay warsawHost 1729900800000 = 20022"
  "localDay warsawHost 1729987200000 = 20023"
  by (simp_all add: localDay_def Day_def LocalTime_def LocalTZA_def warsawHost_def
      msPerDay_def msPerHour_def)

lemma warsaw_next:
  "UTC warsawHost (LocalTime warsawHost 1729814400000 + msPerDay) = 1729900800000"
  "UTC warsawHost (LocalTime warsawHost 1729900800000 + msPerDay) = 1729987200000"
  "UTC warsawHost (LocalTime warsawHost 1729987200000 + msPerDay) = 1730077200000"
  by (simp_all add: UTC_def LocalTime_def LocalTZA_def warsawHost_def msPerDay_def msPerHour_def)

lemma warsaw_steps:
  "setDate warsawHost 1729814400000 (getDate 20021 + 1) = 1729900800000"
  "setDate warsawHost 1729900800000 (getDate 20022 + 1) = 1729987200000"
  "setDate warsawHost 1729987200000 (getDate 20023 + 1) = 1730077200000"
  using setDate_next [of warsawHost 1729814400000] setDate_next [of warsawHost 1729900800000]
    setDate_next [of warsawHost 1729987200000]
  unfolding warsaw_localDay warsaw_next by simp_all

text \<open>
  Claim C1 has the generator return exactly the days from the start to the end inclusive that
  are no weekend days and no public holidays. The generator reads the two ends as midnight
  UTC and steps the local day. On a host that keeps Central European time, for the interval
  from Friday 2024-10-25 to Monday 2024-10-28 and no public holidays: the loop starts at
  02:00 local time on Friday, reaches 02:00 local time on Sunday 27 October (which occurs
  twice that night and is taken as the first, midnight UTC), and the next step gives 02:00
  local time on Monday, one hour past midnight UTC of Monday, which is past the end. The
  Monday is left out and the result is the Friday alone. On a host that keeps UTC the same
  interval gives the Friday and the Monday.
\<close>

theorem generateDateRange_daylight_saving:
  "parseIsoDate ''2024-10-25'' = Some 20021 \<and> parseIsoDate ''2024-10-28'' = Some 20024
   \<and> getDay 20021 = 5 \<and> getDay 20024 = 1
   \<and> generateDateRange warsawHost ''2024-10-25'' ''2024-10-28'' [] = [''2024-10-25'']
   \<and> generateDateRange utcHost ''2024-10-25'' ''2024-10-28'' [] = [''2024-10-25'', ''2024-10-28'']"
proof -
  have "generateDateRange_loop warsawHost [] 1730073600000 1729814400000 [] = [''2024-10-25'']"
    apply (subst generateDateRange_loop.simps)
    apply (simp only: warsaw_localDay warsaw_steps)
    apply (subst generateDateRange_loop.simps)
    apply (simp only: warsaw_localDay warsaw_steps)
    apply (subst generateDateRange_loop.simps)
    apply (simp only: warsaw_localDay warsaw_steps)
    apply (subst generateDateRange_loop.simps)
    apply (simp add: getDay_examples formatDate_examples)
    done
  then have "generateDateRange warsawHost ''2024-10-25'' ''2024-10-28'' [] = [''2024-10-25'']"
    by (simp add: generateDateRange_def newDate_def parseIsoDate_examples msPerDay_def)
  then show ?thesis
    by (simp add: parseIsoDate_examples getDay_examples generateDateRange_utc_examples)
qed

section \<open>Facts about the numbers of the runtime\<close>

text \<open>
  The binary exponent brackets a positive number between two powers of two. Rounding to the
  nearest double is monotone, keeps the sign, and leaves every integer up to \<open>2 ^ 53\<close> in
  magnitude as it is.
\<close>

lemma exponent_bounds:
  assumes "0 < x"
  shows "2 powi exponent x \<le> x" and "x < 2 powi (exponent x + 1)"
proof -
  consider (big) "1 \<le> x" | (small) "x < 1" by linarith
  then have "2 powi exponent x \<le> x \<and> x < 2 powi (exponent x + 1)"
  proof cases
    case big
    define n where "n = nat \<lfloor>x\<rfloor>"
    define m where "m = floorlog 2 n"
    have n: "0 < n" "real n \<le> x" "x < real n + 1" using big unfolding n_def by linarith+
    have b: "2 ^ (m - 1) \<le> n" "n < 2 ^ m" using floorlog_bounds [of n 2] n(1) by (simp_all add: m_def)
    have m: "0 < m" using b(2) n(1) by (cases m) simp_all
    have e: "exponent x = int (m - 1)" using big m by (simp add: exponent_def n_def m_def)
    have "(2::real) ^ (m - 1) \<le> real n" using b(1) by (metis of_nat_le_iff of_nat_numeral of_nat_power)
    then have l: "(2::real) ^ (m - 1) \<le> x" using n(2) by linarith
    have "n + 1 \<le> 2 ^ m" using b(2) by simp
    then have "real (n + 1) \<le> 2 ^ m" by (metis of_nat_le_iff of_nat_numeral of_nat_power)
    then have u: "x < 2 ^ m" using n(3) by simp
    have pa: "(2::real) powi int (m - 1) = 2 ^ (m - 1)" by (rule power_int_of_nat)
    have "int (m - 1) + 1 = int m" using m by simp
    then have pb: "(2::real) powi (int (m - 1) + 1) = 2 ^ m" by (simp only: power_int_of_nat)
    show ?thesis unfolding e pa pb using l u by blast
  next
    case small
    define N where "N = \<lceil>1 / x\<rceil>"
    define n where "n = nat (N - 1)"
    define m where "m = floorlog 2 n"
    have ix: "1 < 1 / x" using assms small by simp
    have N: "2 \<le> N" "real_of_int N - 1 < 1 / x" "1 / x \<le> real_of_int N"
      using ix unfolding N_def by linarith+
    have n: "0 < n" "real n < 1 / x" "1 / x \<le> real n + 1" using N by (simp_all add: n_def)
    have b: "2 ^ (m - 1) \<le> n" "n < 2 ^ m" using floorlog_bounds [of n 2] n(1) by (simp_all add: m_def)
    have m: "0 < m" using b(2) n(1) by (cases m) simp_all
    have e: "exponent x = - int m" using small by (simp add: exponent_def n_def m_def N_def)
    have "(2::real) ^ (m - 1) \<le> real n" using b(1) by (metis of_nat_le_iff of_nat_numeral of_nat_power)
    then have l: "(2::real) ^ (m - 1) < 1 / x" using n(2) by linarith
    have "n + 1 \<le> 2 ^ m" using b(2) by simp
    then have "real (n + 1) \<le> 2 ^ m" by (metis of_nat_le_iff of_nat_numeral of_nat_power)
    then have u: "1 / x \<le> 2 ^ m" using n(3) by simp
    have u': "1 / 2 ^ m \<le> x"
      using u assms by (simp add: field_simps)
    have l': "x < 1 / 2 ^ (m - 1)"
      using l assms by (simp add: field_simps)
    have p1: "(2::real) powi (- int m) = 1 / 2 ^ m"
      by (simp only: power_int_minus power_int_of_nat inverse_eq_divide)
    have "- int m + 1 = - int (m - 1)" using m by simp
    then have p2: "(2::real) powi (- int m + 1) = 1 / 2 ^ (m - 1)"
      by (simp only: power_int_minus power_int_of_nat inverse_eq_divide)
    show ?thesis unfolding e p1 p2 using u' l' by blast
  qed
  then show "2 powi exponent x \<le> x" and "x < 2 powi (exponent x + 1)" by simp_all
qed

lemma exponent_unique:
  assumes "0 < x" and "2 powi k \<le> x" and "x < 2 powi (k + 1)"
  shows "exponent x = k"
proof -
  note b = exponent_bounds [OF assms(1)]
  have "(2::real) powi exponent x < 2 powi (k + 1)" using b(1) assms(3) by linarith
  then have 1: "exponent x < k + 1"
    using power_int_increasing [of "k + 1" "exponent x" "2::real"] by (cases "exponent x < k + 1") auto
  have "(2::real) powi k < 2 powi (exponent x + 1)" using b(2) assms(2) by linarith
  then have 2: "k < exponent x + 1"
    using power_int_increasing [of "exponent x + 1" k "2::real"] by (cases "k < exponent x + 1") auto
  show ?thesis using 1 2 by simp
qed

lemma exponent_mono:
  assumes "0 < x" and "x \<le> y"
  shows "exponent x \<le> exponent y"
proof -
  have y: "0 < y" using assms by linarith
  have "(2::real) powi exponent x < 2 powi (exponent y + 1)"
    using exponent_bounds(1) [OF assms(1)] exponent_bounds(2) [OF y] assms(2) by linarith
  then have "exponent x < exponent y + 1"
    using power_int_increasing [of "exponent y + 1" "exponent x" "2::real"]
    by (cases "exponent x < exponent y + 1") auto
  then show ?thesis by simp
qed

lemma roundHalfEven_of_int: "roundHalfEven (of_int k) = k"
  by (simp add: roundHalfEven_def)

lemma roundHalfEven_bounds: "\<lfloor>r\<rfloor> \<le> roundHalfEven r" "roundHalfEven r \<le> \<lfloor>r\<rfloor> + 1"
  by (simp_all add: roundHalfEven_def Let_def)

lemma roundHalfEven_mono:
  assumes "r \<le> s"
  shows "roundHalfEven r \<le> roundHalfEven s"
proof -
  have f: "\<lfloor>r\<rfloor> \<le> \<lfloor>s\<rfloor>" using assms by (rule floor_mono)
  consider (same) "\<lfloor>r\<rfloor> = \<lfloor>s\<rfloor>" | (less) "\<lfloor>r\<rfloor> + 1 \<le> \<lfloor>s\<rfloor>" using f by linarith
  then show ?thesis
  proof cases
    case same
    then show ?thesis using assms by (simp add: roundHalfEven_def Let_def)
  next
    case less
    then show ?thesis using roundHalfEven_bounds(2) [of r] roundHalfEven_bounds(1) [of s] by linarith
  qed
qed

lemma roundHalfEven_minus: "roundHalfEven (- r) = - roundHalfEven r"
proof -
  consider (int) "r = of_int \<lfloor>r\<rfloor>" | (frac) "of_int \<lfloor>r\<rfloor> < r" by linarith
  then show ?thesis
  proof cases
    case int
    then obtain k where "r = of_int k" by blast
    then have "- r = of_int (- k)" by simp
    then show ?thesis unfolding \<open>r = of_int k\<close> by (simp only: roundHalfEven_of_int)
  next
    case frac
    have "r < of_int \<lfloor>r\<rfloor> + 1" by linarith
    then have "\<lfloor>- r\<rfloor> = - \<lfloor>r\<rfloor> - 1" using frac by linarith
    then show ?thesis using frac by (auto simp: roundHalfEven_def Let_def)
  qed
qed

lemmas fl_alt = fl_def

lemma grid_le:
  assumes "x \<le> of_int k * 2 powi e"
  shows "of_int (roundHalfEven (x / 2 powi e)) * 2 powi e \<le> (of_int k * 2 powi e :: real)"
proof -
  have p: "(0::real) < 2 powi e" by simp
  have "x / 2 powi e \<le> of_int k" using assms p by (simp add: field_simps)
  then have "roundHalfEven (x / 2 powi e) \<le> k"
    using roundHalfEven_mono [of "x / 2 powi e" "of_int k"] by (simp add: roundHalfEven_of_int)
  then have "(of_int (roundHalfEven (x / 2 powi e)) :: real) \<le> of_int k" by simp
  then show ?thesis using p by (simp add: mult_right_mono)
qed

lemma grid_ge:
  assumes "of_int k * 2 powi e \<le> x"
  shows "(of_int k * 2 powi e :: real) \<le> of_int (roundHalfEven (x / 2 powi e)) * 2 powi e"
proof -
  have p: "(0::real) < 2 powi e" by simp
  have "of_int k \<le> x / 2 powi e" using assms p by (simp add: field_simps)
  then have "k \<le> roundHalfEven (x / 2 powi e)"
    using roundHalfEven_mono [of "of_int k" "x / 2 powi e"] by (simp add: roundHalfEven_of_int)
  then have "(of_int k :: real) \<le> of_int (roundHalfEven (x / 2 powi e))" by simp
  then show ?thesis using p by (simp add: mult_right_mono)
qed

lemma powi_split:
  assumes "e \<le> E"
  shows "(2::real) powi E = of_int (2 ^ nat (E - e)) * 2 powi e"
proof -
  have "(2::real) powi E = 2 powi (int (nat (E - e)) + e)" using assms by simp
  also have "\<dots> = 2 powi int (nat (E - e)) * 2 powi e" by (rule power_int_add) simp
  also have "\<dots> = of_int (2 ^ nat (E - e)) * 2 powi e" by (simp only: power_int_of_nat of_int_power of_int_numeral)
  finally show ?thesis .
qed

lemma fl_mono_pos:
  assumes "0 < x" and "x \<le> y"
  shows "fl x \<le> fl y"
proof -
  have y: "0 < y" using assms by linarith
  have ax: "\<bar>x\<bar> = x" and ay: "\<bar>y\<bar> = y" using assms y by simp_all
  have m: "exponent x \<le> exponent y" by (rule exponent_mono [OF assms])
  then have le: "ulpExponent x \<le> ulpExponent y" by (simp add: ulpExponent_def ax ay)
  consider (same) "ulpExponent x = ulpExponent y" | (less) "ulpExponent x < ulpExponent y"
    using le by linarith
  then show ?thesis
  proof cases
    case same
    have p: "(0::real) < 2 powi ulpExponent y" by simp
    have "x / 2 powi ulpExponent y \<le> y / 2 powi ulpExponent y"
      using assms(2) p by (simp add: divide_right_mono)
    then have "roundHalfEven (x / 2 powi ulpExponent y) \<le> roundHalfEven (y / 2 powi ulpExponent y)"
      by (rule roundHalfEven_mono)
    then have "(of_int (roundHalfEven (x / 2 powi ulpExponent y)) :: real)
        \<le> of_int (roundHalfEven (y / 2 powi ulpExponent y))" by simp
    then show ?thesis unfolding fl_alt same using p by (simp add: mult_right_mono)
  next
    case less
    define E where "E = exponent y"
    have E: "- 1022 < E" "exponent x < E" "ulpExponent y = E - 52" "ulpExponent x < E"
      using less unfolding ulpExponent_def ax ay E_def max_def by (simp_all split: if_splits)
    define b :: real where "b = 2 powi E"
    have bley: "b \<le> y" using exponent_bounds(1) [OF y] by (simp add: b_def E_def)
    have "x < 2 powi (exponent x + 1)" by (rule exponent_bounds(2) [OF assms(1)])
    also have "\<dots> \<le> 2 powi E" by (rule power_int_increasing) (use E(2) in simp_all)
    finally have xb: "x \<le> b" by (simp add: b_def)
    have b1: "b = of_int (2 ^ nat (E - ulpExponent x)) * 2 powi ulpExponent x"
      unfolding b_def by (rule powi_split) (use E(4) in simp)
    have b2: "b = of_int (2 ^ nat (E - ulpExponent y)) * 2 powi ulpExponent y"
      unfolding b_def by (rule powi_split) (use E(3) in simp)
    have "fl x \<le> b" unfolding fl_alt using grid_le [of x _ "ulpExponent x"] xb unfolding b1 by blast
    moreover have "b \<le> fl y" unfolding fl_alt using grid_ge [of _ "ulpExponent y" y] bley unfolding b2 by blast
    ultimately show ?thesis by linarith
  qed
qed

lemma fl_0: "fl 0 = 0"
  by (simp add: fl_def roundHalfEven_def)

lemma fl_minus: "fl (- x) = - fl x"
  by (simp add: fl_def ulpExponent_def roundHalfEven_minus)

lemma fl_nonneg:
  assumes "0 \<le> x"
  shows "0 \<le> fl x"
proof -
  have "(of_int 0 * 2 powi ulpExponent x :: real)
      \<le> of_int (roundHalfEven (x / 2 powi ulpExponent x)) * 2 powi ulpExponent x"
    by (rule grid_ge) (use assms in simp)
  then show ?thesis by (simp add: fl_alt)
qed

lemma fl_mono:
  assumes "x \<le> y"
  shows "fl x \<le> fl y"
proof -
  consider (pos) "0 < x" | (neg) "y < 0" | (mid) "x \<le> 0" "0 \<le> y" by linarith
  then show ?thesis
  proof cases
    case pos
    then show ?thesis using assms by (rule fl_mono_pos)
  next
    case neg
    have "fl (- y) \<le> fl (- x)" by (rule fl_mono_pos) (use neg assms in simp_all)
    then show ?thesis by (simp add: fl_minus)
  next
    case mid
    have "0 \<le> fl (- x)" by (rule fl_nonneg) (use mid in simp)
    then have "fl x \<le> 0" by (simp add: fl_minus)
    moreover have "0 \<le> fl y" by (rule fl_nonneg) (rule mid)
    ultimately show ?thesis by linarith
  qed
qed

lemma fl_of_int:
  assumes "\<bar>k\<bar> \<le> 2 ^ 53"
  shows "fl (of_int k) = of_int k"
proof -
  have pos: "fl (of_int n) = of_int n" if n: "0 < n" "n \<le> 2 ^ 53" for n :: int
  proof -
    define x :: real where "x = of_int n"
    have x: "0 < x" "1 \<le> x" "x \<le> 2 ^ 53" using n by (simp_all add: x_def)
    have e0: "0 \<le> exponent x"
      using exponent_mono [of 1 x] x exponent_unique [of 1 0] by simp
    have "(2::real) powi exponent x \<le> 2 powi 53" using exponent_bounds(1) [OF x(1)] x(3) by simp
    then have e53: "exponent x \<le> 53"
      using power_int_strict_increasing [of 53 "exponent x" "2::real"]
      by (cases "exponent x \<le> 53") auto
    have u: "ulpExponent x = exponent x - 52" using x e0 by (simp add: ulpExponent_def)
    consider (low) "exponent x \<le> 52" | (top) "exponent x = 53" using e53 by linarith
    then show ?thesis
    proof cases
      case low
      have "(1::real) = 2 powi 0" by simp
      also have "\<dots> = of_int (2 ^ nat (0 - ulpExponent x)) * 2 powi ulpExponent x"
        by (rule powi_split) (use low u in simp)
      finally have "x = of_int (n * 2 ^ nat (0 - ulpExponent x)) * 2 powi ulpExponent x"
        by (simp add: x_def)
      then have "x / 2 powi ulpExponent x = of_int (n * 2 ^ nat (0 - ulpExponent x))"
        by (simp add: field_simps)
      then have "fl x = of_int (n * 2 ^ nat (0 - ulpExponent x)) * 2 powi ulpExponent x"
        unfolding fl_alt by (simp only: roundHalfEven_of_int)
      then show ?thesis
        using \<open>x = of_int (n * 2 ^ nat (0 - ulpExponent x)) * 2 powi ulpExponent x\<close>
        by (simp add: x_def)
    next
      case top
      have "(2::real) ^ 53 \<le> x" using exponent_bounds(1) [OF x(1)] unfolding top by simp
      then have "x = 2 ^ 53" using x(3) by linarith
      then have "x / 2 powi ulpExponent x = of_int (2 ^ 52)" unfolding u top by simp
      then have "fl x = of_int (2 ^ 52) * 2 powi ulpExponent x"
        unfolding fl_alt by (simp only: roundHalfEven_of_int)
      then show ?thesis unfolding u top using \<open>x = 2 ^ 53\<close> by (simp add: x_def)
    qed
  qed
  consider (z) "k = 0" | (p) "0 < k" | (n) "k < 0" by linarith
  then show ?thesis
  proof cases
    case z
    then show ?thesis by (simp add: fl_0)
  next
    case p
    then show ?thesis using assms by (intro pos) simp_all
  next
    case n
    have "fl (of_int (- k)) = of_int (- k)" using assms n by (intro pos) simp_all
    then show ?thesis by (simp add: fl_minus)
  qed
qed

lemma fl_eval:
  assumes "0 < x" and "2 powi k \<le> x" and "x < 2 powi (k + 1)" and "- 1022 \<le> k"
  shows "fl x = of_int (roundHalfEven (x / 2 powi (k - 52))) * 2 powi (k - 52)"
proof -
  have "exponent x = k" by (rule exponent_unique [OF assms(1-3)])
  then have "ulpExponent x = k - 52" using assms(1,4) by (simp add: ulpExponent_def)
  then show ?thesis by (simp add: fl_alt)
qed

lemma fl_dyadic_pos:
  assumes "0 < n" and "n \<le> 2 ^ 53" and "j \<le> 1074"
  shows "fl (of_int n * 2 powi (- int j)) = of_int n * 2 powi (- int j)"
proof -
  define x :: real where "x = of_int n * 2 powi (- int j)"
  define g :: real where "g = 2 powi (- int j)"
  have g: "0 < g" by (simp add: g_def)
  have x: "0 < x" "g \<le> x" using assms(1) g by (simp_all add: x_def g_def [symmetric])
  have "x \<le> 2 ^ 53 * g"
  proof -
    have "(of_int n :: real) \<le> 2 ^ 53" using assms(2) by (metis of_int_le_iff of_int_numeral of_int_power)
    then show ?thesis unfolding x_def g_def [symmetric] using g by (simp add: mult_right_mono)
  qed
  also have "2 ^ 53 * g = 2 powi (53 - int j)"
    unfolding g_def using power_int_add [of "2::real" 53 "- int j"] by simp
  finally have top: "x \<le> 2 powi (53 - int j)" .
  have "(2::real) powi exponent x \<le> 2 powi (53 - int j)"
    using exponent_bounds(1) [OF x(1)] top by linarith
  then have e53: "exponent x \<le> 53 - int j"
    using power_int_strict_increasing [of "53 - int j" "exponent x" "2::real"]
    by (cases "exponent x \<le> 53 - int j") auto
  consider (low) "exponent x \<le> 52 - int j" | (top) "exponent x = 53 - int j" using e53 by linarith
  then show ?thesis
  proof cases
    case low
    have u: "ulpExponent x \<le> - int j"
      using low assms(3) x(1) by (simp add: ulpExponent_def)
    have "g = of_int (2 ^ nat (- int j - ulpExponent x)) * 2 powi ulpExponent x"
      unfolding g_def by (rule powi_split) (rule u)
    then have on: "x = of_int (n * 2 ^ nat (- int j - ulpExponent x)) * 2 powi ulpExponent x"
      by (simp add: x_def g_def [symmetric])
    then have "x / 2 powi ulpExponent x = of_int (n * 2 ^ nat (- int j - ulpExponent x))"
      by (simp add: field_simps)
    then have "fl x = of_int (n * 2 ^ nat (- int j - ulpExponent x)) * 2 powi ulpExponent x"
      unfolding fl_alt by (simp only: roundHalfEven_of_int)
    from this on [symmetric] have "fl x = x" by (rule trans)
    then show ?thesis unfolding x_def .
  next
    case top
    have "(2::real) powi (53 - int j) \<le> x" using exponent_bounds(1) [OF x(1)] unfolding top .
    then have xe: "x = 2 powi (53 - int j)" using \<open>x \<le> 2 powi (53 - int j)\<close> by linarith
    have u: "ulpExponent x = 1 - int j"
      using top assms(3) x(1) by (simp add: ulpExponent_def)
    have "(2::real) powi (53 - int j) = 2 powi (52 + (1 - int j))" by simp
    also have "\<dots> = 2 powi 52 * 2 powi (1 - int j)" by (rule power_int_add) simp
    finally have s: "x = of_int (2 ^ 52) * 2 powi ulpExponent x" unfolding xe [symmetric] u by simp
    have "0 < (2::real) powi ulpExponent x" by simp
    then have "x / 2 powi ulpExponent x = of_int (2 ^ 52)"
      using s by (metis nonzero_mult_div_cancel_right less_irrefl)
    then have "fl x = of_int (2 ^ 52) * 2 powi ulpExponent x"
      unfolding fl_alt by (simp only: roundHalfEven_of_int)
    from this s [symmetric] have "fl x = x" by (rule trans)
    then show ?thesis unfolding x_def .
  qed
qed

lemma fl_dyadic:
  assumes "\<bar>n\<bar> \<le> 2 ^ 53" and "j \<le> 1074"
  shows "fl (of_int n / 2 ^ j) = of_int n / 2 ^ j"
proof -
  have p: "(of_int m :: real) / 2 ^ j = of_int m * 2 powi (- int j)" for m
    by (simp add: power_int_minus field_simps)
  consider (z) "n = 0" | (p) "0 < n" | (n) "n < 0" by linarith
  then show ?thesis
  proof cases
    case z
    then show ?thesis by (simp add: fl_0)
  next
    case p
    have "n \<le> 2 ^ 53" using assms(1) by simp
    with p have "fl (of_int n * 2 powi (- int j)) = of_int n * 2 powi (- int j)"
      using assms(2) by (rule fl_dyadic_pos)
    then show ?thesis unfolding \<open>\<And>m. (of_int m :: real) / 2 ^ j = of_int m * 2 powi (- int j)\<close> .
  next
    case n
    have "0 < - n" "- n \<le> 2 ^ 53" using assms(1) n by simp_all
    then have "fl (of_int (- n) * 2 powi (- int j)) = of_int (- n) * 2 powi (- int j)"
      using assms(2) by (rule fl_dyadic_pos)
    then have "fl (- (of_int n * 2 powi (- int j))) = - (of_int n * 2 powi (- int j))" by simp
    then show ?thesis unfolding \<open>\<And>m. (of_int m :: real) / 2 ^ j = of_int m * 2 powi (- int j)\<close>
      by (simp only: fl_minus neg_equal_iff_equal)
  qed
qed

lemma fl_17: "fl (17 + 1 / 2 ^ 52) = 17"
proof -
  have "fl (17 + 1 / 2 ^ 52) = of_int (roundHalfEven ((17 + 1 / 2 ^ 52) / 2 powi (4 - 52))) * 2 powi (4 - 52)"
    by (rule fl_eval) simp_all
  also have "(17 + 1 / 2 ^ 52) / 2 powi (4 - 52) = (of_int 4785074604081152 + 1 / 16 :: real)"
    by (simp add: power_int_minus)
  also have "roundHalfEven (of_int 4785074604081152 + 1 / 16) = 4785074604081152"
  proof -
    have "\<lfloor>(of_int 4785074604081152 + 1 / 16 :: real)\<rfloor> = 4785074604081152" by linarith
    then show ?thesis unfolding roundHalfEven_def Let_def by simp
  qed
  finally show ?thesis by (simp add: power_int_minus)
qed

section \<open>Validation of a holiday request\<close>

lemma validate_missing:
  assumes "start_date req = None \<or> start_date req = Some []"
  shows "validate h f req = InvalidDate"
  using assms by (auto simp: validate_def)

lemma validate_weekend:
  assumes "start_date req = Some s" and "s \<noteq> []" and "newDate h s = Some t"
    and "getDay (localDay h t) = 0 \<or> getDay (localDay h t) = 6"
  shows "validate h f req = WeekendNotAllowed"
  using assms by (simp add: validate_def isWeekendDay_def)

lemma validate_weekday:
  assumes "start_date req = Some s" and "s \<noteq> []" and "newDate h s = Some t"
    and "getDay (localDay h t) \<noteq> 0" and "getDay (localDay h t) \<noteq> 6"
    and "f s (orElse (end_date req) s) = Some phs"
  shows "validate h f req =
     (if formatDate (localDay h t) \<in> (\<lambda>ph. formatDate (holiday_date ph)) ` set phs
      then PublicHolidayNotAllowed
      else if generateDateRange h s (orElse (end_date req) s) phs = [] then NoValidDays
      else Added (generateDateRange h s (orElse (end_date req) s) phs))"
  using assms by (simp add: validate_def isWeekendDay_def formatDateString_def Let_def)


lemma validate_unparseable:
  assumes "start_date req = Some s" and "s \<noteq> []" and "newDate h s = None"
  shows "validate h f req = Failed"
  using assms
  by (simp add: validate_def isWeekendDay_def formatDateString_def Let_def split: option.splits)

lemma validate_InvalidDate:
  assumes "validate h f req = InvalidDate"
  shows "start_date req = None \<or> start_date req = Some []"
  using assms
  by (simp add: validate_def Let_def split: option.splits if_splits)

lemma post_holidays_fst: "fst (post_holidays h f u req hs) = validate h f req"
  by (simp add: post_holidays_def split: outcome.split)

lemma post_holidays_added:
  assumes "validate h f req = Added ds"
  shows "snd (post_holidays h f u req hs) = insertHolidays u ds hs"
  using assms by (simp add: post_holidays_def)

lemma post_holidays_rejected:
  assumes "validate h f req \<in>
    {InvalidDate, WeekendNotAllowed, PublicHolidayNotAllowed, NoValidDays, Failed}"
  shows "snd (post_holidays h f u req hs) = hs"
  using assms by (auto simp: post_holidays_def)






lemma utcHost_offset:
  "0 \<le> LocalTZA utcHost t True" "LocalTZA utcHost t True < msPerDay"
  by (simp_all add: LocalTZA_def utcHost_def msPerDay_def msPerHour_def)


section \<open>The write of the generated days\<close>

lemma insertHolidays_count:
  "length [r \<leftarrow> insertHolidays u ds hs. row_user_id r = u \<and> row_holiday_date r = d] =
     (if [r \<leftarrow> hs. row_user_id r = u \<and> row_holiday_date r = d] \<noteq> []
      then length [r \<leftarrow> hs. row_user_id r = u \<and> row_holiday_date r = d]
      else if d \<in> set ds then 1 else 0)"
proof (induction ds arbitrary: hs)
  case Nil
  then show ?case by simp
next
  case (Cons x ds)
  let ?P = "\<lambda>d r. row_user_id r = u \<and> row_holiday_date r = d"
  let ?new = "\<lparr>row_user_id = u, row_holiday_date = x\<rparr>"
  consider (absent) "filter (?P x) hs = []" | (found) "filter (?P x) hs \<noteq> []" by blast
  then show ?case
  proof cases
    case absent
    then have s: "insertHolidays u (x # ds) hs = insertHolidays u ds (hs @ [?new])"
      by (simp add: Let_def)
    have f: "filter (?P d) (hs @ [?new]) = filter (?P d) hs @ (if d = x then [?new] else [])"
      by simp
    show ?thesis
      unfolding s Cons.IH [of "hs @ [?new]"] f using absent by auto
  next
    case found
    then have s: "insertHolidays u (x # ds) hs = insertHolidays u ds hs"
      by (simp add: Let_def)
    show ?thesis
      unfolding s Cons.IH [of hs] using found by auto
  qed
qed

lemma insertHolidays_others:
  "[r \<leftarrow> insertHolidays u ds hs. row_user_id r \<noteq> u] = [r \<leftarrow> hs. row_user_id r \<noteq> u]"
  by (induction ds arbitrary: hs) (simp_all add: Let_def)

lemma insertHolidays_present:
  assumes "\<forall>d \<in> set ds. [r \<leftarrow> hs. row_user_id r = u \<and> row_holiday_date r = d] \<noteq> []"
  shows "insertHolidays u ds hs = hs"
  using assms by (induction ds arbitrary: hs) (simp_all add: Let_def)

lemma insertHolidays_twice:
  "insertHolidays u ds (insertHolidays u ds hs) = insertHolidays u ds hs"
proof (rule insertHolidays_present, rule ballI)
  fix d
  assume d: "d \<in> set ds"
  have "length [r \<leftarrow> insertHolidays u ds hs. row_user_id r = u \<and> row_holiday_date r = d] \<noteq> 0"
    unfolding insertHolidays_count using d by simp
  then show "[r \<leftarrow> insertHolidays u ds hs. row_user_id r = u \<and> row_holiday_date r = d] \<noteq> []"
    by simp
qed

lemma post_holidays_twice:
  "post_holidays h f u req (snd (post_holidays h f u req hs)) = post_holidays h f u req hs"
  by (simp add: post_holidays_def insertHolidays_twice split: outcome.split)

text \<open>
  Claim C6. The write of a holiday request is idempotent on the records: submitting the same
  request for the same user again, on the table the first submission left, gives the same
  outcome and leaves that table as it is. The write is one pass over the generated days
  inside the one transaction of the handler, and for each generated day it inserts a row of
  the user and the day only when the table has none: afterwards a day that had rows keeps
  exactly those rows, a generated day that had none has exactly one, and the rows of other
  users are the rows they were.
\<close>

theorem post_holidays_idempotent:
  "post_holidays h f u req (snd (post_holidays h f u req hs)) = post_holidays h f u req hs
   \<and> (validate h f req = Added ds
        \<longrightarrow> post_holidays h f u req hs = (Added ds, insertHolidays u ds hs))
   \<and> (\<forall>d. length [r \<leftarrow> insertHolidays u ds hs. row_user_id r = u \<and> row_holiday_date r = d] =
          (if [r \<leftarrow> hs. row_user_id r = u \<and> row_holiday_date r = d] \<noteq> []
           then length [r \<leftarrow> hs. row_user_id r = u \<and> row_holiday_date r = d]
           else if d \<in> set ds then 1 else 0))
   \<and> [r \<leftarrow> insertHolidays u ds hs. row_user_id r \<noteq> u] = [r \<leftarrow> hs. row_user_id r \<noteq> u]"
proof (intro conjI allI impI)
  show "post_holidays h f u req (snd (post_holidays h f u req hs)) = post_holidays h f u req hs"
    by (rule post_holidays_twice)
next
  assume "validate h f req = Added ds"
  then show "post_holidays h f u req hs = (Added ds, insertHolidays u ds hs)"
    by (simp add: post_holidays_def)
next
  fix d
  show "length [r \<leftarrow> insertHolidays u ds hs. row_user_id r = u \<and> row_holiday_date r = d] =
          (if [r \<leftarrow> hs. row_user_id r = u \<and> row_holiday_date r = d] \<noteq> []
           then length [r \<leftarrow> hs. row_user_id r = u \<and> row_holiday_date r = d]
           else if d \<in> set ds then 1 else 0)"
    by (rule insertHolidays_count)
next
  show "[r \<leftarrow> insertHolidays u ds hs. row_user_id r \<noteq> u] = [r \<leftarrow> hs. row_user_id r \<noteq> u]"
    by (rule insertHolidays_others)
qed

lemma validate_fri_sun:
  "validate utcHost (\<lambda>s e. Some [])
      \<lparr>start_date = Some ''2024-05-03'', end_date = Some ''2024-05-05''\<rparr>
     = Added [''2024-05-03'']"
  using validate_weekday
    [of "\<lparr>start_date = Some ''2024-05-03'', end_date = Some ''2024-05-05''\<rparr>" "''2024-05-03''"
        utcHost "19846 * msPerDay" "\<lambda>s e. Some []" "[]"]
  by (simp add: newDate_iso [OF parseIsoDate_examples(2)] utcHost_localDay getDay_examples
      orElse_def generateDateRange_utc_examples)

theorem post_holidays_idempotent_witness:
  "post_holidays utcHost (\<lambda>s e. Some []) 7
      \<lparr>start_date = Some ''2024-05-03'', end_date = Some ''2024-05-05''\<rparr> []
     = (Added [''2024-05-03''], [\<lparr>row_user_id = 7, row_holiday_date = ''2024-05-03''\<rparr>])
   \<and> post_holidays utcHost (\<lambda>s e. Some []) 7
      \<lparr>start_date = Some ''2024-05-03'', end_date = Some ''2024-05-05''\<rparr>
      [\<lparr>row_user_id = 7, row_holiday_date = ''2024-05-03''\<rparr>]
     = (Added [''2024-05-03''], [\<lparr>row_user_id = 7, row_holiday_date = ''2024-05-03''\<rparr>])"
proof -
  note t = post_holidays_idempotent
    [of utcHost "\<lambda>s e. Some []" 7
        "\<lparr>start_date = Some ''2024-05-03'', end_date = Some ''2024-05-05''\<rparr>"
        "[]" "[''2024-05-03'']"]
  have 1: "post_holidays utcHost (\<lambda>s e. Some []) 7
      \<lparr>start_date = Some ''2024-05-03'', end_date = Some ''2024-05-05''\<rparr> []
     = (Added [''2024-05-03''], [\<lparr>row_user_id = 7, row_holiday_date = ''2024-05-03''\<rparr>])"
    using t validate_fri_sun by (simp add: Let_def)
  show ?thesis using t unfolding 1 by simp
qed

section \<open>The outcome for a start date that is missing or does not parse\<close>

text \<open>
  Claim C7 has \<open>InvalidDate\<close> returned exactly when the start date is missing or does not
  parse as a date. The handler tests \<^verbatim>\<open>!start_date\<close> only: a start date that is present
  and does not parse, such as \<^verbatim>\<open>abc\<close>, passes that test and the weekend test (the day of
  the week of an Invalid Date is NaN) and is rejected later, with another outcome.
\<close>

theorem validate_unparseable_start_counterexample:
  "newDate utcHost ''abc'' = None
   \<and> validate utcHost (\<lambda>s e. None) \<lparr>start_date = Some ''abc'', end_date = None\<rparr> \<noteq> InvalidDate
   \<and> validate utcHost (\<lambda>s e. Some []) \<lparr>start_date = Some ''abc'', end_date = None\<rparr>
       \<noteq> InvalidDate"
  using validate_unparseable
    [of "\<lparr>start_date = Some ''abc'', end_date = None\<rparr>" "''abc''" utcHost]
  by (simp add: newDate_utcHost_None parseIsoDate_examples)

text \<open>
  Claim C7, as the handler has it: \<open>InvalidDate\<close> is the outcome exactly when the start
  date is absent or the empty string, and the request then leaves the table as it was. A
  start date that is present and that \<^verbatim>\<open>new Date\<close> on the host makes the Invalid Date is
  rejected as well, with the generic failure and with the table left as it was.
\<close>

theorem validate_InvalidDate_iff:
  "(validate h f req = InvalidDate \<longleftrightarrow> start_date req = None \<or> start_date req = Some [])
   \<and> (validate h f req = InvalidDate \<longrightarrow> post_holidays h f u req hs = (InvalidDate, hs))
   \<and> (start_date req = Some s \<and> newDate h s = None
        \<longrightarrow> validate h f req \<in> {InvalidDate, Failed} \<and> snd (post_holidays h f u req hs) = hs)
   \<and> (start_date req = Some s \<and> s \<noteq> [] \<and> newDate h s = None
        \<longrightarrow> post_holidays h f u req hs = (Failed, hs))"
proof (intro conjI impI)
  show "validate h f req = InvalidDate \<longleftrightarrow> start_date req = None \<or> start_date req = Some []"
    using validate_InvalidDate [of h f req] validate_missing [of req h f] by blast
next
  assume "validate h f req = InvalidDate"
  then show "post_holidays h f u req hs = (InvalidDate, hs)" by (simp add: post_holidays_def)
next
  assume a: "start_date req = Some s \<and> newDate h s = None"
  have "s = [] \<or> s \<noteq> []" by simp
  then show "validate h f req \<in> {InvalidDate, Failed}"
    using a validate_missing [of req h f] validate_unparseable [of req s h f] by auto
  then show "snd (post_holidays h f u req hs) = hs"
    by (intro post_holidays_rejected) auto
next
  assume "start_date req = Some s \<and> s \<noteq> [] \<and> newDate h s = None"
  then have "validate h f req = Failed" by (simp add: validate_unparseable [of req s h f])
  then show "post_holidays h f u req hs = (Failed, hs)" by (simp add: post_holidays_def)
qed

theorem validate_InvalidDate_iff_witness:
  "validate utcHost (\<lambda>s e. Some []) \<lparr>start_date = Some [], end_date = Some ''2024-05-06''\<rparr>
       = InvalidDate
   \<and> post_holidays utcHost (\<lambda>s e. Some []) 7
        \<lparr>start_date = Some [], end_date = Some ''2024-05-06''\<rparr>
        [\<lparr>row_user_id = 7, row_holiday_date = ''2024-05-03''\<rparr>]
       = (InvalidDate, [\<lparr>row_user_id = 7, row_holiday_date = ''2024-05-03''\<rparr>])
   \<and> validate utcHost (\<lambda>s e. Some [])
        \<lparr>start_date = Some ''2024-05-03'', end_date = Some ''2024-05-05''\<rparr>
       \<noteq> InvalidDate
   \<and> post_holidays utcHost (\<lambda>s e. Some []) 7 \<lparr>start_date = Some ''abc'', end_date = None\<rparr>
        [\<lparr>row_user_id = 7, row_holiday_date = ''2024-05-03''\<rparr>]
       = (Failed, [\<lparr>row_user_id = 7, row_holiday_date = ''2024-05-03''\<rparr>])"
proof -
  note a = validate_InvalidDate_iff
    [of utcHost "\<lambda>s e. Some []" "\<lparr>start_date = Some [], end_date = Some ''2024-05-06''\<rparr>" 7
        "[\<lparr>row_user_id = 7, row_holiday_date = ''2024-05-03''\<rparr>]"]
  note b = validate_InvalidDate_iff
    [of utcHost "\<lambda>s e. Some []"
        "\<lparr>start_date = Some ''2024-05-03'', end_date = Some ''2024-05-05''\<rparr>"]
  note c = validate_InvalidDate_iff
    [of utcHost "\<lambda>s e. Some []" "\<lparr>start_date = Some ''abc'', end_date = None\<rparr>" 7
        "[\<lparr>row_user_id = 7, row_holiday_date = ''2024-05-03''\<rparr>]" "''abc''"]
  show ?thesis using a b c by (simp add: newDate_utcHost_None parseIsoDate_examples)
qed

section \<open>An interval whose start lies after its end\<close>

text \<open>
  Claim C10 has every request whose start date lies after its end date rejected with
  \<open>NoValidDays\<close>. The checks on the start date come first: a start date on a Saturday is
  rejected with \<open>WeekendNotAllowed\<close> before any day is generated.
\<close>

theorem reversed_interval_counterexample:
  "parseIsoDate ''2024-05-04'' = Some 19847 \<and> parseIsoDate ''2024-05-03'' = Some 19846
   \<and> (19846 :: int) < 19847
   \<and> post_holidays utcHost (\<lambda>s e. Some []) 7
        \<lparr>start_date = Some ''2024-05-04'', end_date = Some ''2024-05-03''\<rparr> []
       = (WeekendNotAllowed, [])
   \<and> fst (post_holidays utcHost (\<lambda>s e. Some []) 7
        \<lparr>start_date = Some ''2024-05-04'', end_date = Some ''2024-05-03''\<rparr> []) \<noteq> NoValidDays"
  using validate_weekend
    [of "\<lparr>start_date = Some ''2024-05-04'', end_date = Some ''2024-05-03''\<rparr>" "''2024-05-04''"
        utcHost "19847 * msPerDay" "\<lambda>s e. Some []"]
  by (simp add: newDate_iso [OF parseIsoDate_examples(3)] parseIsoDate_examples utcHost_localDay
      getDay_examples post_holidays_def)

lemma validate_not_Added:
  assumes "start_date req = Some s"
    and "\<And>phs. generateDateRange h s (orElse (end_date req) s) phs = []"
  shows "validate h f req \<in> {InvalidDate, WeekendNotAllowed, PublicHolidayNotAllowed, NoValidDays, Failed}"
  using assms by (simp add: validate_def Let_def split: option.splits)

lemma generateDateRange_reversed:
  assumes "newDate h s = Some a" and "newDate h e = Some b" and "b < a"
  shows "generateDateRange h s e phs = []"
  using assms by (simp add: generateDateRange_def generateDateRange_loop.simps)

text \<open>
  Claim C10, as the handler has it: when the start date lies after the end date (as the time
  values \<^verbatim>\<open>new Date\<close> makes of the two strings on the host), the generator returns the empty
  list, the request is rejected and the table is left as it was (the transaction is not
  reached). The outcome is \<open>NoValidDays\<close> when the start date is on a weekday, the
  public-holiday query returned and the start date is none of the public holidays; an earlier
  check that fails gives its own outcome instead.
\<close>

theorem reversed_interval_rejected:
  assumes "start_date req = Some s" and "end_date req = Some e" and "s \<noteq> []" and "e \<noteq> []"
    and "newDate h s = Some a" and "newDate h e = Some b" and "b < a"
  shows "generateDateRange h s e phs = []
    \<and> snd (post_holidays h f u req hs) = hs
    \<and> fst (post_holidays h f u req hs)
        \<in> {WeekendNotAllowed, PublicHolidayNotAllowed, NoValidDays, Failed}
    \<and> (getDay (localDay h a) \<noteq> 0 \<and> getDay (localDay h a) \<noteq> 6 \<and> f s e = Some phs
         \<and> formatDate (localDay h a) \<notin> (\<lambda>ph. formatDate (holiday_date ph)) ` set phs
        \<longrightarrow> fst (post_holidays h f u req hs) = NoValidDays)"
proof -
  have oe: "orElse (end_date req) s = e" using assms(2,4) by (simp add: orElse_def)
  have g: "generateDateRange h s e p = []" for p
    by (rule generateDateRange_reversed [OF assms(5,6,7)])
  have v: "validate h f req \<in>
      {InvalidDate, WeekendNotAllowed, PublicHolidayNotAllowed, NoValidDays, Failed}"
    by (rule validate_not_Added [OF assms(1)]) (simp add: oe g)
  have n: "validate h f req \<noteq> InvalidDate"
    using validate_InvalidDate [of h f req] assms(1,3) by auto
  have w: "validate h f req = NoValidDays"
    if "getDay (localDay h a) \<noteq> 0 \<and> getDay (localDay h a) \<noteq> 6 \<and> f s e = Some phs
         \<and> formatDate (localDay h a) \<notin> (\<lambda>ph. formatDate (holiday_date ph)) ` set phs"
    using validate_weekday [of req s h a f phs] that assms(1,3,5) by (simp add: oe g)
  show ?thesis
    using g [of phs] post_holidays_rejected [OF v, of u hs] v n w
    by (simp add: post_holidays_fst)
qed

theorem reversed_interval_rejected_witness:
  "generateDateRange utcHost ''2024-05-07'' ''2024-05-03'' [] = []
   \<and> post_holidays utcHost (\<lambda>s e. Some []) 7
        \<lparr>start_date = Some ''2024-05-07'', end_date = Some ''2024-05-03''\<rparr>
        [\<lparr>row_user_id = 7, row_holiday_date = ''2024-05-06''\<rparr>]
       = (NoValidDays, [\<lparr>row_user_id = 7, row_holiday_date = ''2024-05-06''\<rparr>])"
proof -
  have lt: "19846 * msPerDay < 19850 * msPerDay" by (simp add: msPerDay_def)
  have ne: "''2024-05-07'' \<noteq> []" "''2024-05-03'' \<noteq> []" by simp_all
  note t = reversed_interval_rejected
    [of "\<lparr>start_date = Some ''2024-05-07'', end_date = Some ''2024-05-03''\<rparr>"
        "''2024-05-07''" "''2024-05-03''" utcHost "19850 * msPerDay" "19846 * msPerDay" "[]"
        "\<lambda>s e. Some []" 7 "[\<lparr>row_user_id = 7, row_holiday_date = ''2024-05-06''\<rparr>]",
      OF _ _ ne newDate_iso [OF parseIsoDate_examples(6)] newDate_iso [OF parseIsoDate_examples(2)] lt]
  show ?thesis using t by (simp add: utcHost_localDay getDay_examples prod_eq_iff)
qed

section \<open>The monthly statistics\<close>

lemma getWeekdaysInMonth_feb_2024: "getWeekdaysInMonth 2024 2 = 21"
  by (simp add: getWeekdaysInMonth_def MakeDay_def getDay_def)

lemma Math_round_of_int: "Math_round (of_int k) = of_int k"
proof -
  have "\<lfloor>(of_int k :: real) + 1 / 2\<rfloor> = k" by linarith
  then show ?thesis by (simp add: Math_round_def)
qed

lemma Math_round_mono:
  assumes "x \<le> y"
  shows "Math_round x \<le> Math_round y"
proof -
  have "\<lfloor>x + 1 / 2\<rfloor> \<le> \<lfloor>y + 1 / 2\<rfloor>" by (rule floor_mono) (use assms in simp)
  then show ?thesis by (simp add: Math_round_def)
qed

lemma round2_mono:
  assumes "x \<le> y"
  shows "round2 x \<le> round2 y"
proof -
  have "fl (x * 100) \<le> fl (y * 100)" by (rule fl_mono) (use assms in simp)
  then have "Math_round (fl (x * 100)) \<le> Math_round (fl (y * 100))" by (rule Math_round_mono)
  then have "Math_round (fl (x * 100)) / 100 \<le> Math_round (fl (y * 100)) / 100" by simp
  then show ?thesis unfolding round2_def by (rule fl_mono)
qed

lemma round2_of_int:
  assumes "\<bar>n\<bar> \<le> 2 ^ 46"
  shows "round2 (of_int n) = of_int n"
proof -
  have b: "\<bar>n * 100\<bar> \<le> 2 ^ 53" "\<bar>n\<bar> \<le> 2 ^ 53" using assms by (simp_all add: abs_mult)
  have "fl (of_int n * 100) = of_int (n * 100)" using fl_of_int [OF b(1)] by simp
  then have "Math_round (fl (of_int n * 100)) = of_int (n * 100)"
    by (simp only: Math_round_of_int)
  then have "Math_round (fl (of_int n * 100)) / 100 = of_int n" by simp
  then show ?thesis unfolding round2_def by (simp add: fl_of_int [OF b(2)])
qed

lemma round2_0: "round2 0 = 0"
  using round2_of_int [of 0] by simp

lemma round2_nonneg:
  assumes "0 \<le> x"
  shows "0 \<le> round2 x"
  using round2_mono [OF assms] by (simp add: round2_0)

lemma fl_examples:
  "fl 52 = 52" "fl 100 = 100" "fl 116 = 116" "fl 151 = 151" "fl 17 = 17" "fl 1 = 1"
  using fl_of_int [of 52] fl_of_int [of 100] fl_of_int [of 116] fl_of_int [of 151]
    fl_of_int [of 17] fl_of_int [of 1]
  by simp_all

lemma round2_examples:
  "round2 52 = 52" "round2 100 = 100" "round2 116 = 116"
  using round2_of_int [of 52] round2_of_int [of 100] round2_of_int [of 116] by simp_all

lemma monthStats_feb_2024:
  "monthStats 2024 2 100 2 [] =
     \<lparr>ms_totalWorkHours = 100, ms_holidayCount = 2, ms_totalHolidayHours = 16,
      ms_publicHolidaysCount = 0, ms_publicHolidayHours = 0, ms_totalCombinedHours = 116,
      ms_requiredMonthlyHours = 168, ms_remainingHours = 52\<rparr>"
  by (simp add: monthStats_def totalHolidayHours_def publicHolidaysOnWorkdays_def
      publicHolidayHours_def totalCombinedHours_def requiredMonthlyHours_def remainingHours_def
      hoursPerDay_def getWeekdaysInMonth_feb_2024 fl_examples round2_examples)

text \<open>
  Claim C3. For every month, the required monthly hours are the weekdays of the month less
  the number of all the public holidays supplied for it (those on a weekend too), times 8;
  the holiday hours are the holiday count times 8; the public-holiday hours count only the
  public holidays that fall on a weekday, times 8, and do not enter the combined hours,
  which are the worked hours plus the holiday hours, a sum of the runtime's numbers. The
  statistics object carries these values, the combined hours rounded to two decimals. For
  February 2024 with no public holidays, 100 worked hours and 2 holidays it reads: required
  168, holiday hours 16, combined 116, remaining 52.
\<close>

theorem monthStats_formulas:
  "requiredMonthlyHours year month publicHolidays =
      (getWeekdaysInMonth year month - int (length publicHolidays)) * 8
   \<and> totalHolidayHours holidayCount = holidayCount * 8
   \<and> publicHolidayHours publicHolidays =
      int (length [p \<leftarrow> publicHolidays. getDay (holiday_date p) \<noteq> 0 \<and> getDay (holiday_date p) \<noteq> 6]) * 8
   \<and> totalCombinedHours totalWorkHours holidayCount =
      fl (totalWorkHours + of_int (totalHolidayHours holidayCount))
   \<and> ms_requiredMonthlyHours (monthStats year month totalWorkHours holidayCount publicHolidays) =
      requiredMonthlyHours year month publicHolidays
   \<and> ms_totalHolidayHours (monthStats year month totalWorkHours holidayCount publicHolidays) =
      totalHolidayHours holidayCount
   \<and> ms_publicHolidayHours (monthStats year month totalWorkHours holidayCount publicHolidays) =
      publicHolidayHours publicHolidays
   \<and> ms_totalCombinedHours (monthStats year month totalWorkHours holidayCount publicHolidays) =
      round2 (totalCombinedHours totalWorkHours holidayCount)
   \<and> ms_totalCombinedHours (monthStats year month totalWorkHours holidayCount publicHolidays) =
      ms_totalCombinedHours (monthStats year month totalWorkHours holidayCount [])
   \<and> totalCombinedHours 100 2 = 100 + 16
   \<and> monthStats 2024 2 100 2 [] =
      \<lparr>ms_totalWorkHours = 100, ms_holidayCount = 2, ms_totalHolidayHours = 16,
       ms_publicHolidaysCount = 0, ms_publicHolidayHours = 0, ms_totalCombinedHours = 116,
       ms_requiredMonthlyHours = 168, ms_remainingHours = 52\<rparr>"
  by (simp add: monthStats_feb_2024)
    (simp add: monthStats_def totalHolidayHours_def publicHolidaysOnWorkdays_def
      publicHolidayHours_def totalCombinedHours_def requiredMonthlyHours_def hoursPerDay_def
      fl_examples)

theorem monthStats_formulas_witness:
  "requiredMonthlyHours 2024 2 [\<lparr>holiday_date = 19756, name = ''Saturday''\<rparr>] = 160
   \<and> getDay 19756 = 6
   \<and> publicHolidayHours [\<lparr>holiday_date = 19756, name = ''Saturday''\<rparr>] = 0
   \<and> totalCombinedHours 100 2 = 116
   \<and> ms_totalCombinedHours (monthStats 2024 2 100 2 [\<lparr>holiday_date = 19756, name = ''Saturday''\<rparr>])
       = 116"
  using monthStats_formulas [of 2024 2 "[\<lparr>holiday_date = 19756, name = ''Saturday''\<rparr>]" 2 100]
  by (simp add: getWeekdaysInMonth_feb_2024 getDay_def fl_examples round2_examples)

section \<open>The remaining hours\<close>

lemma totalCombinedHours_mono:
  assumes "w \<le> w'"
  shows "totalCombinedHours w holidayCount \<le> totalCombinedHours w' holidayCount"
  unfolding totalCombinedHours_def by (rule fl_mono) (use assms in simp)

lemma remainingHours_antimono:
  assumes "w \<le> w'"
  shows "remainingHours year month publicHolidays w' holidayCount
      \<le> remainingHours year month publicHolidays w holidayCount"
proof -
  have "fl (of_int (requiredMonthlyHours year month publicHolidays) - totalCombinedHours w' holidayCount)
      \<le> fl (of_int (requiredMonthlyHours year month publicHolidays) - totalCombinedHours w holidayCount)"
    by (rule fl_mono) (use totalCombinedHours_mono [OF assms, of holidayCount] in simp)
  then show ?thesis unfolding remainingHours_def by (rule max.mono [OF order_refl])
qed

lemma remainingHours_of_int:
  assumes "\<bar>a\<bar> \<le> 2 ^ 51" and "\<bar>holidayCount\<bar> \<le> 2 ^ 40"
    and "\<bar>requiredMonthlyHours year month publicHolidays\<bar> \<le> 2 ^ 50"
  shows "remainingHours year month publicHolidays (of_int a) holidayCount =
     of_int (max 0 (requiredMonthlyHours year month publicHolidays - (a + holidayCount * 8)))"
proof -
  define R where "R = requiredMonthlyHours year month publicHolidays"
  have 1: "\<bar>a + holidayCount * 8\<bar> \<le> 2 ^ 53" using assms(1,2) by simp
  have 2: "\<bar>R - (a + holidayCount * 8)\<bar> \<le> 2 ^ 53" using assms unfolding R_def by simp
  have c: "totalCombinedHours (of_int a) holidayCount = of_int (a + holidayCount * 8)"
    using fl_of_int [OF 1] by (simp add: totalCombinedHours_def totalHolidayHours_def hoursPerDay_def)
  have "fl (of_int R - of_int (a + holidayCount * 8)) = of_int (R - (a + holidayCount * 8))"
    using fl_of_int [OF 2] by simp
  then show ?thesis unfolding remainingHours_def c R_def [symmetric] by simp
qed

text \<open>
  The doubles written \<^verbatim>\<open>100.1\<close> and \<^verbatim>\<open>0.1\<close> are \<open>3521955646092083 / 2 ^ 45\<close> and
  \<open>3602879701896397 / 2 ^ 55\<close>. Their sum, the combined hours and the remaining hours of
  February 2024 with 2 holidays, in the arithmetic of the runtime:
\<close>

lemma fl_tenth_examples:
  "fl (3521955646092083 / 2 ^ 45) = 3521955646092083 / 2 ^ 45"
  "fl (3602879701896397 / 2 ^ 55) = 3602879701896397 / 2 ^ 55"
  "fl (3521955646092083 / 2 ^ 45 + 3602879701896397 / 2 ^ 55) = 1762737041650483 / 2 ^ 44"
  "fl (1826068911410381 / 2 ^ 45 - 3602879701896397 / 2 ^ 55) = 7290201896805991 / 2 ^ 47"
proof -
  show "fl (3521955646092083 / 2 ^ 45) = 3521955646092083 / 2 ^ 45"
    using fl_dyadic [of 3521955646092083 45] by simp
  show "fl (3602879701896397 / 2 ^ 55) = 3602879701896397 / 2 ^ 55"
    using fl_dyadic [of 3602879701896397 55] by simp
  have r: "roundHalfEven (of_int n + p) = n" if "0 \<le> p" "p < 1 / 2" for n p
  proof -
    have "\<lfloor>of_int n + p\<rfloor> = n" using that by linarith
    then show ?thesis using that by (simp add: roundHalfEven_def Let_def)
  qed
  let ?x = "3521955646092083 / 2 ^ 45 + 3602879701896397 / 2 ^ 55 :: real"
  have "fl ?x = of_int (roundHalfEven (?x / 2 powi (6 - 52))) * 2 powi (6 - 52)"
    by (rule fl_eval) simp_all
  also have "?x / 2 powi (6 - 52) = of_int 7050948166601932 + 205 / 512"
    by (simp add: power_int_minus)
  also have "roundHalfEven (of_int 7050948166601932 + 205 / 512) = 7050948166601932"
    by (rule r) simp_all
  finally show "fl ?x = 1762737041650483 / 2 ^ 44" by (simp add: power_int_minus)
  let ?y = "1826068911410381 / 2 ^ 45 - 3602879701896397 / 2 ^ 55 :: real"
  have "fl ?y = of_int (roundHalfEven (?y / 2 powi (5 - 52))) * 2 powi (5 - 52)"
    by (rule fl_eval) simp_all
  also have "?y / 2 powi (5 - 52) = of_int 7290201896805991 + 51 / 256"
    by (simp add: power_int_minus)
  also have "roundHalfEven (of_int 7290201896805991 + 51 / 256) = 7290201896805991"
    by (rule r) simp_all
  finally show "fl ?y = 7290201896805991 / 2 ^ 47" by (simp add: power_int_minus)
qed

lemma remainingHours_tenth_examples:
  "remainingHours 2024 2 [] (3521955646092083 / 2 ^ 45) 2 = 1826068911410381 / 2 ^ 45"
  "remainingHours 2024 2 [] (1762737041650483 / 2 ^ 44) 2 = 911275237100749 / 2 ^ 44"
proof -
  have r: "requiredMonthlyHours 2024 2 [] = 168"
    by (simp add: requiredMonthlyHours_def hoursPerDay_def getWeekdaysInMonth_feb_2024)
  have "totalCombinedHours (3521955646092083 / 2 ^ 45) 2 = fl (4084905599513395 / 2 ^ 45)"
    by (simp add: totalCombinedHours_def totalHolidayHours_def hoursPerDay_def)
  also have "\<dots> = 4084905599513395 / 2 ^ 45" using fl_dyadic [of 4084905599513395 45] by simp
  finally have c0: "totalCombinedHours (3521955646092083 / 2 ^ 45) 2 = 4084905599513395 / 2 ^ 45" .
  have "fl (of_int 168 - 4084905599513395 / 2 ^ 45) = fl (1826068911410381 / 2 ^ 45)" by simp
  also have "\<dots> = 1826068911410381 / 2 ^ 45" using fl_dyadic [of 1826068911410381 45] by simp
  finally show "remainingHours 2024 2 [] (3521955646092083 / 2 ^ 45) 2 = 1826068911410381 / 2 ^ 45"
    unfolding remainingHours_def c0 r by simp
  have "totalCombinedHours (1762737041650483 / 2 ^ 44) 2 = fl (2044212018361139 / 2 ^ 44)"
    by (simp add: totalCombinedHours_def totalHolidayHours_def hoursPerDay_def)
  also have "\<dots> = 2044212018361139 / 2 ^ 44" using fl_dyadic [of 2044212018361139 44] by simp
  finally have c1: "totalCombinedHours (1762737041650483 / 2 ^ 44) 2 = 2044212018361139 / 2 ^ 44" .
  have "fl (of_int 168 - 2044212018361139 / 2 ^ 44) = fl (911275237100749 / 2 ^ 44)" by simp
  also have "\<dots> = 911275237100749 / 2 ^ 44" using fl_dyadic [of 911275237100749 44] by simp
  finally show "remainingHours 2024 2 [] (1762737041650483 / 2 ^ 44) 2 = 911275237100749 / 2 ^ 44"
    unfolding remainingHours_def c1 r by simp
qed

text \<open>
  Claim C4 has more worked hours by any \<open>\<Delta> > 0\<close> strictly decrease the remaining hours,
  by \<open>\<Delta>\<close>, until they are 0. The hours are doubles and the sums are rounded. For February
  2024 with 2 holidays, 1 worked hour leaves 151 hours, and so does the next double after 1,
  which is \<open>1 + 1 / 2 ^ 52\<close>: the worked hours are more by \<open>1 / 2 ^ 52 > 0\<close> and the remaining
  hours, which are not 0, have not decreased. With \<^verbatim>\<open>100.1\<close> worked hours and \<^verbatim>\<open>0.1\<close> more,
  the remaining hours go from \<^verbatim>\<open>51.900000000000006\<close> to \<^verbatim>\<open>51.80000000000001\<close>, which is
  neither the difference of the two numbers nor that difference rounded
  (\<^verbatim>\<open>51.800000000000004\<close>). In the statistics object the remaining hours are rounded to two
  decimals, and there 100 worked hours and \<open>100 + 1 / 1024\<close> worked hours both leave 52.
\<close>

theorem remainingHours_rounding_counterexample:
  "(0::real) < 1 / 2 ^ 52
   \<and> fl 1 = 1 \<and> fl (1 + 1 / 2 ^ 52) = 1 + 1 / 2 ^ 52
   \<and> remainingHours 2024 2 [] 1 2 = 151
   \<and> remainingHours 2024 2 [] (1 + 1 / 2 ^ 52) 2 = 151
   \<and> remainingHours 2024 2 [] (3521955646092083 / 2 ^ 45) 2 = 1826068911410381 / 2 ^ 45
   \<and> remainingHours 2024 2 [] (fl (3521955646092083 / 2 ^ 45 + 3602879701896397 / 2 ^ 55)) 2
       = 911275237100749 / 2 ^ 44
   \<and> (911275237100749 / 2 ^ 44 :: real)
       \<noteq> 1826068911410381 / 2 ^ 45 - 3602879701896397 / 2 ^ 55
   \<and> 911275237100749 / 2 ^ 44
       \<noteq> fl (1826068911410381 / 2 ^ 45 - 3602879701896397 / 2 ^ 55)
   \<and> fl (100 + 1 / 1024) = 100 + 1 / 1024
   \<and> ms_remainingHours (monthStats 2024 2 100 2 []) = 52
   \<and> ms_remainingHours (monthStats 2024 2 (100 + 1 / 1024) 2 []) = 52"
proof -
  have t1: "remainingHours 2024 2 [] (fl (3521955646092083 / 2 ^ 45 + 3602879701896397 / 2 ^ 55)) 2
       = 911275237100749 / 2 ^ 44"
    unfolding fl_tenth_examples(3) by (rule remainingHours_tenth_examples(2))
  have t2: "(911275237100749 / 2 ^ 44 :: real)
       \<noteq> 1826068911410381 / 2 ^ 45 - 3602879701896397 / 2 ^ 55"
    by simp
  have t3: "911275237100749 / 2 ^ 44
       \<noteq> fl (1826068911410381 / 2 ^ 45 - 3602879701896397 / 2 ^ 55)"
    unfolding fl_tenth_examples(4) by simp
  have a: "fl (1 + 1 / 2 ^ 52) = 1 + 1 / 2 ^ 52"
    using fl_dyadic [of 4503599627370497 52] by simp
  have r: "requiredMonthlyHours 2024 2 [] = 168"
    by (simp add: requiredMonthlyHours_def hoursPerDay_def getWeekdaysInMonth_feb_2024)
  have b: "remainingHours 2024 2 [] 1 2 = 151"
    by (simp add: remainingHours_def totalCombinedHours_def totalHolidayHours_def hoursPerDay_def
        r fl_examples)
  have "totalCombinedHours (1 + 1 / 2 ^ 52) 2 = fl (17 + 1 / 2 ^ 52)"
    by (simp add: totalCombinedHours_def totalHolidayHours_def hoursPerDay_def)
  also have "\<dots> = 17" by (rule fl_17)
  finally have tc: "totalCombinedHours (1 + 1 / 2 ^ 52) 2 = 17" .
  have c: "remainingHours 2024 2 [] (1 + 1 / 2 ^ 52) 2 = 151"
    unfolding remainingHours_def tc r by (simp add: fl_examples)
  have d: "fl (100 + 1 / 1024) = 100 + 1 / 1024"
    using fl_dyadic [of 102401 10] by simp
  have e1: "fl (116 + 1 / 1024) = 116 + 1 / 1024"
    using fl_dyadic [of 118785 10] by simp
  have e2: "fl (52 - 1 / 1024) = 52 - 1 / 1024"
    using fl_dyadic [of 53247 10] by simp
  have e3: "fl ((52 - 1 / 1024) * 100) = 1331175 / 256"
    using fl_dyadic [of 1331175 8] by simp
  have e4: "Math_round (1331175 / 256) = 5200"
  proof -
    have "\<lfloor>(1331175 / 256 + 1 / 2 :: real)\<rfloor> = 5200" by linarith
    then show ?thesis by (simp add: Math_round_def)
  qed
  have "totalCombinedHours (100 + 1 / 1024) 2 = fl (116 + 1 / 1024)"
    by (simp add: totalCombinedHours_def totalHolidayHours_def hoursPerDay_def)
  then have tc': "totalCombinedHours (100 + 1 / 1024) 2 = 116 + 1 / 1024" unfolding e1 .
  have "fl (of_int 168 - (116 + 1 / 1024)) = fl (52 - 1 / 1024)" by simp
  then have "fl (of_int 168 - (116 + 1 / 1024)) = 52 - 1 / 1024" unfolding e2 .
  then have rh: "remainingHours 2024 2 [] (100 + 1 / 1024) 2 = 52 - 1 / 1024"
    unfolding remainingHours_def tc' r by simp
  have "round2 (52 - 1 / 1024) = fl (Math_round (fl ((52 - 1 / 1024) * 100)) / 100)"
    by (simp only: round2_def)
  also have "\<dots> = fl (5200 / 100)" unfolding e3 e4 ..
  also have "\<dots> = 52" by (simp add: fl_examples)
  finally have "round2 (52 - 1 / 1024) = 52" .
  then have f: "ms_remainingHours (monthStats 2024 2 (100 + 1 / 1024) 2 []) = 52"
    unfolding monthStats_def rh by simp
  have g: "ms_remainingHours (monthStats 2024 2 100 2 []) = 52"
    by (simp add: monthStats_feb_2024)
  have p: "(0::real) < 1 / 2 ^ 52" by simp
  note facts = p a b c d f g t1 t2 t3 remainingHours_tenth_examples(1) fl_examples(6)
  show ?thesis by (intro conjI; fact facts)
qed

text \<open>
  Claim C4, as the arithmetic of the runtime has it. The remaining hours are the larger of 0
  and the required hours less the combined hours, the difference being a difference of the
  runtime's numbers; they are never negative, and neither is the rounded value in the
  statistics object. With all else fixed, more worked hours never give more remaining hours,
  in the computed value and in the rounded value of the statistics object, and once the
  remaining hours are 0 they stay 0. Where the worked hours and \<open>\<Delta>\<close> are whole numbers
  (and no number is so large that the runtime rounds integers) more worked hours by
  \<open>\<Delta> > 0\<close> take exactly \<open>\<Delta>\<close> off the remaining hours, stopping at 0.
\<close>

theorem remainingHours_monotone:
  "remainingHours year month publicHolidays totalWorkHours holidayCount =
      max 0 (fl (of_int (requiredMonthlyHours year month publicHolidays)
                 - totalCombinedHours totalWorkHours holidayCount))
   \<and> 0 \<le> remainingHours year month publicHolidays totalWorkHours holidayCount
   \<and> ms_remainingHours (monthStats year month totalWorkHours holidayCount publicHolidays) =
      round2 (remainingHours year month publicHolidays totalWorkHours holidayCount)
   \<and> 0 \<le> ms_remainingHours (monthStats year month totalWorkHours holidayCount publicHolidays)
   \<and> (0 < delta \<longrightarrow>
        remainingHours year month publicHolidays (fl (totalWorkHours + delta)) holidayCount
          \<le> remainingHours year month publicHolidays (fl totalWorkHours) holidayCount)
   \<and> (totalWorkHours \<le> moreWorkHours \<longrightarrow>
        remainingHours year month publicHolidays moreWorkHours holidayCount
          \<le> remainingHours year month publicHolidays totalWorkHours holidayCount
        \<and> ms_remainingHours (monthStats year month moreWorkHours holidayCount publicHolidays)
          \<le> ms_remainingHours (monthStats year month totalWorkHours holidayCount publicHolidays))
   \<and> (totalWorkHours \<le> moreWorkHours
        \<and> remainingHours year month publicHolidays totalWorkHours holidayCount = 0 \<longrightarrow>
        remainingHours year month publicHolidays moreWorkHours holidayCount = 0)
   \<and> (0 \<le> wholeHours \<and> 0 < wholeDelta \<and> wholeHours + wholeDelta \<le> 2 ^ 50
        \<and> 0 \<le> holidayCount \<and> holidayCount \<le> 2 ^ 40
        \<and> \<bar>requiredMonthlyHours year month publicHolidays\<bar> \<le> 2 ^ 50 \<longrightarrow>
        remainingHours year month publicHolidays (of_int (wholeHours + wholeDelta)) holidayCount =
          max 0 (remainingHours year month publicHolidays (of_int wholeHours) holidayCount
                 - of_int wholeDelta))"
proof (intro conjI impI)
  show "remainingHours year month publicHolidays totalWorkHours holidayCount =
      max 0 (fl (of_int (requiredMonthlyHours year month publicHolidays)
                 - totalCombinedHours totalWorkHours holidayCount))"
    by (simp add: remainingHours_def)
next
  show n: "0 \<le> remainingHours year month publicHolidays totalWorkHours holidayCount"
    by (simp add: remainingHours_def)
  show r: "ms_remainingHours (monthStats year month totalWorkHours holidayCount publicHolidays) =
      round2 (remainingHours year month publicHolidays totalWorkHours holidayCount)"
    by (simp add: monthStats_def)
  show "0 \<le> ms_remainingHours (monthStats year month totalWorkHours holidayCount publicHolidays)"
    unfolding r by (rule round2_nonneg [OF n])
next
  assume "0 < delta"
  then have "fl totalWorkHours \<le> fl (totalWorkHours + delta)" by (intro fl_mono) simp
  then show "remainingHours year month publicHolidays (fl (totalWorkHours + delta)) holidayCount
          \<le> remainingHours year month publicHolidays (fl totalWorkHours) holidayCount"
    by (rule remainingHours_antimono)
next
  assume le: "totalWorkHours \<le> moreWorkHours"
  show a: "remainingHours year month publicHolidays moreWorkHours holidayCount
          \<le> remainingHours year month publicHolidays totalWorkHours holidayCount"
    by (rule remainingHours_antimono [OF le])
  show "ms_remainingHours (monthStats year month moreWorkHours holidayCount publicHolidays)
          \<le> ms_remainingHours (monthStats year month totalWorkHours holidayCount publicHolidays)"
    using round2_mono [OF a] by (simp add: monthStats_def)
next
  assume "totalWorkHours \<le> moreWorkHours
        \<and> remainingHours year month publicHolidays totalWorkHours holidayCount = 0"
  then have "remainingHours year month publicHolidays moreWorkHours holidayCount \<le> 0"
    using remainingHours_antimono [of totalWorkHours moreWorkHours year month publicHolidays holidayCount]
    by simp
  moreover have "0 \<le> remainingHours year month publicHolidays moreWorkHours holidayCount"
    by (simp add: remainingHours_def)
  ultimately show "remainingHours year month publicHolidays moreWorkHours holidayCount = 0"
    by linarith
next
  assume h: "0 \<le> wholeHours \<and> 0 < wholeDelta \<and> wholeHours + wholeDelta \<le> 2 ^ 50
        \<and> 0 \<le> holidayCount \<and> holidayCount \<le> 2 ^ 40
        \<and> \<bar>requiredMonthlyHours year month publicHolidays\<bar> \<le> 2 ^ 50"
  have 1: "remainingHours year month publicHolidays (of_int wholeHours) holidayCount =
     of_int (max 0 (requiredMonthlyHours year month publicHolidays - (wholeHours + holidayCount * 8)))"
    by (rule remainingHours_of_int) (use h in simp_all)
  have 2: "remainingHours year month publicHolidays (of_int (wholeHours + wholeDelta)) holidayCount =
     of_int (max 0 (requiredMonthlyHours year month publicHolidays
        - (wholeHours + wholeDelta + holidayCount * 8)))"
    by (rule remainingHours_of_int) (use h in simp_all)
  show "remainingHours year month publicHolidays (of_int (wholeHours + wholeDelta)) holidayCount =
          max 0 (remainingHours year month publicHolidays (of_int wholeHours) holidayCount
                 - of_int wholeDelta)"
    unfolding 1 2 using h by (simp add: max_def)
qed

theorem remainingHours_monotone_witness:
  "remainingHours 2024 2 [] 100 2 = 52
   \<and> remainingHours 2024 2 [] 110 2 = 42
   \<and> remainingHours 2024 2 [] 152 2 = 0
   \<and> remainingHours 2024 2 [] 160 2 = 0
   \<and> remainingHours 2024 2 [] (1 + 1 / 2 ^ 52) 2 \<le> remainingHours 2024 2 [] 1 2
   \<and> ms_remainingHours (monthStats 2024 2 (100 + 1 / 1024) 2 [])
       \<le> ms_remainingHours (monthStats 2024 2 100 2 [])"
proof -
  have r: "requiredMonthlyHours 2024 2 [] = 168"
    by (simp add: requiredMonthlyHours_def hoursPerDay_def getWeekdaysInMonth_feb_2024)
  have a: "remainingHours 2024 2 [] 100 2 = 52"
    by (simp add: remainingHours_def totalCombinedHours_def totalHolidayHours_def hoursPerDay_def
        r fl_examples)
  have w: "0 \<le> (100::int) \<and> 0 < (10::int) \<and> (100::int) + 10 \<le> 2 ^ 50
      \<and> 0 \<le> (2::int) \<and> (2::int) \<le> 2 ^ 40 \<and> \<bar>requiredMonthlyHours 2024 2 []\<bar> \<le> 2 ^ 50"
    "0 \<le> (100::int) \<and> 0 < (52::int) \<and> (100::int) + 52 \<le> 2 ^ 50
      \<and> 0 \<le> (2::int) \<and> (2::int) \<le> 2 ^ 40 \<and> \<bar>requiredMonthlyHours 2024 2 []\<bar> \<le> 2 ^ 50"
    "0 \<le> (100::int) \<and> 0 < (60::int) \<and> (100::int) + 60 \<le> 2 ^ 50
      \<and> 0 \<le> (2::int) \<and> (2::int) \<le> 2 ^ 40 \<and> \<bar>requiredMonthlyHours 2024 2 []\<bar> \<le> 2 ^ 50"
    by (simp_all add: r)
  have t10: "remainingHours 2024 2 [] (of_int (100 + 10)) 2 =
      max 0 (remainingHours 2024 2 [] (of_int 100) 2 - of_int 10)"
    using remainingHours_monotone [of 2024 2 "[]" 100 2 1 100 100 10] w(1) by blast
  have t52: "remainingHours 2024 2 [] (of_int (100 + 52)) 2 =
      max 0 (remainingHours 2024 2 [] (of_int 100) 2 - of_int 52)"
    using remainingHours_monotone [of 2024 2 "[]" 100 2 1 100 100 52] w(2) by blast
  have t60: "remainingHours 2024 2 [] (of_int (100 + 60)) 2 =
      max 0 (remainingHours 2024 2 [] (of_int 100) 2 - of_int 60)"
    using remainingHours_monotone [of 2024 2 "[]" 100 2 1 100 100 60] w(3) by blast
  have tm: "remainingHours 2024 2 [] (1 + 1 / 2 ^ 52) 2 \<le> remainingHours 2024 2 [] 1 2"
  proof -
    have "(1::real) \<le> 1 + 1 / 2 ^ 52" by simp
    then show ?thesis
      using remainingHours_monotone [of 2024 2 "[]" 1 2 1 "1 + 1 / 2 ^ 52" 100 10] by blast
  qed
  have ts: "ms_remainingHours (monthStats 2024 2 (100 + 1 / 1024) 2 [])
       \<le> ms_remainingHours (monthStats 2024 2 100 2 [])"
  proof -
    have "(100::real) \<le> 100 + 1 / 1024" by simp
    then show ?thesis
      using remainingHours_monotone [of 2024 2 "[]" 100 2 1 "100 + 1 / 1024" 100 10] by blast
  qed
  have "remainingHours 2024 2 [] 110 2 = 42" using t10 by (simp add: a)
  moreover have "remainingHours 2024 2 [] 152 2 = 0" using t52 by (simp add: a)
  moreover have "remainingHours 2024 2 [] 160 2 = 0" using t60 by (simp add: a)
  ultimately show ?thesis using a tm ts by simp
qed

section \<open>Month and year of the grouping views\<close>

lemma civil_2024_05_15: "civil 19858 = (2024, 5, 15)"
  unfolding civil_def Let_def by simp

lemma getMonth_range: "0 \<le> getMonth today \<and> getMonth today \<le> 11"
proof -
  obtain y m d where c: "civil today = (y, m, d)" using prod_cases3 by blast
  show ?thesis using MakeDay_civil(2,3) [OF c] by (simp add: getMonth_def c)
qed

lemma requestMonth_default: "requestMonth None today = getMonth today + 1"
  using getMonth_range [of today] by (simp add: requestMonth_def orDefault_def)

text \<open>
  Claim C9 has every month and year outside the supported ranges clamped to the nearest
  supported value. A parameter that reads 0 is out of range, and \<^verbatim>\<open>||\<close> replaces it by the
  current month or year before the clamp: on 2024-05-15 the month 0 becomes 5, not 1, and
  the year 0 becomes 2024, not 2020.
\<close>

theorem requestMonth_zero_counterexample:
  "getMonth 19858 + 1 = 5
   \<and> requestMonth (Some 0) 19858 = 5
   \<and> requestMonth (Some 0) 19858 \<noteq> 1
   \<and> getFullYear 19858 = 2024
   \<and> requestYear (Some 0) 19858 = 2024
   \<and> requestYear (Some 0) 19858 \<noteq> 2020"
  by (simp add: requestMonth_def requestYear_def orDefault_def getMonth_def getFullYear_def
      civil_2024_05_15)

text \<open>
  Claim C9, as the routes have it: the month is always within 1 to 12 and the year within
  2020 to 2030, so no parameter makes the views fail on it. A parameter that reads a number
  other than 0 is clamped to the nearest supported value: below the range to its lower end,
  above it to its upper end. A parameter that reads 0 is treated as an absent one and gives
  the current month or year (the year clamped to the supported range).
\<close>

theorem request_month_year_clamped:
  "1 \<le> requestMonth q today \<and> requestMonth q today \<le> 12
   \<and> 2020 \<le> requestYear q today \<and> requestYear q today \<le> 2030
   \<and> (n \<noteq> 0 \<longrightarrow> requestMonth (Some n) today = max 1 (min 12 n)
                 \<and> requestYear (Some n) today = max 2020 (min 2030 n))
   \<and> (n < 0 \<longrightarrow> requestMonth (Some n) today = 1 \<and> requestYear (Some n) today = 2020)
   \<and> (12 < n \<longrightarrow> requestMonth (Some n) today = 12)
   \<and> (0 < n \<and> n < 2020 \<longrightarrow> requestYear (Some n) today = 2020)
   \<and> (2030 < n \<longrightarrow> requestYear (Some n) today = 2030)
   \<and> requestMonth (Some 0) today = getMonth today + 1
   \<and> requestMonth None today = getMonth today + 1
   \<and> requestYear (Some 0) today = requestYear None today"
  using requestMonth_default [of today]
  by (auto simp: requestMonth_def requestYear_def orDefault_def Let_def)

theorem request_month_year_clamped_witness:
  "requestMonth (Some (- 3)) 19858 = 1 \<and> requestMonth (Some 13) 19858 = 12
   \<and> requestMonth (Some 7) 19858 = 7
   \<and> requestYear (Some 1999) 19858 = 2020 \<and> requestYear (Some 2031) 19858 = 2030
   \<and> requestYear (Some (- 5)) 19858 = 2020 \<and> requestYear (Some 2025) 19858 = 2025"
  using request_month_year_clamped [of _ 19858 "- 3"] request_month_year_clamped [of _ 19858 13]
    request_month_year_clamped [of _ 19858 7] request_month_year_clamped [of _ 19858 1999]
    request_month_year_clamped [of _ 19858 2031] request_month_year_clamped [of _ 19858 "- 5"]
    request_month_year_clamped [of _ 19858 2025]
  by simp

section \<open>Grouping by person\<close>

subsection \<open>Objects with integer keys\<close>

lemma set_obj_put: "set (obj_put k v kvs) \<subseteq> insert (k, v) (set kvs)"
  by (induction kvs) (auto split: if_splits)

lemma keys_obj_put: "set (map fst (obj_put k v kvs)) = insert k (set (map fst kvs))"
proof (induction kvs)
  case Nil
  then show ?case by simp
next
  case (Cons p kvs)
  obtain k' v' where p: "p = (k', v')" by (cases p)
  show ?case unfolding p using Cons.IH by (simp add: insert_commute)
qed

lemma sorted_obj_put:
  assumes "sorted_wrt (<) (map fst kvs)"
  shows "sorted_wrt (<) (map fst (obj_put k v kvs))"
  using assms
proof (induction kvs)
  case Nil
  then show ?case by simp
next
  case (Cons p kvs)
  obtain k' v' where p: "p = (k', v')" by (cases p)
  have t: "sorted_wrt (<) (map fst kvs)" and h: "\<forall>x \<in> set (map fst kvs). k' < x"
    using Cons.prems by (simp_all add: p)
  have "\<forall>x \<in> set (map fst (obj_put k v kvs)). k' < x" if "k' < k"
    unfolding keys_obj_put using h that by simp
  then show ?case
    using Cons.IH [OF t] t h by (auto simp: p)
qed

lemma map_of_obj_put:
  assumes "sorted_wrt (<) (map fst kvs)"
  shows "map_of (obj_put k v kvs) = (map_of kvs)(k \<mapsto> v)"
  using assms
proof (induction kvs)
  case Nil
  then show ?case by simp
next
  case (Cons p kvs)
  obtain k' v' where p: "p = (k', v')" by (cases p)
  have t: "sorted_wrt (<) (map fst kvs)" and h: "\<forall>x \<in> set (map fst kvs). k' < x"
    using Cons.prems by (simp_all add: p)
  have n: "map_of kvs k = None" if "k < k'"
  proof -
    have "k \<notin> set (map fst kvs)" using h that by auto
    then show ?thesis by (simp add: map_of_eq_None_iff)
  qed
  show ?case
    using Cons.IH [OF t] n by (auto simp: p fun_eq_iff)
qed

lemma keys_obj_put_present:
  assumes "sorted_wrt (<) (map fst kvs)" and "k \<in> set (map fst kvs)"
  shows "map fst (obj_put k v kvs) = map fst kvs"
  using assms
proof (induction kvs)
  case Nil
  then show ?case by simp
next
  case (Cons p kvs)
  obtain k' v' where p: "p = (k', v')" by (cases p)
  have t: "sorted_wrt (<) (map fst kvs)" and h: "\<forall>x \<in> set (map fst kvs). k' < x"
    using Cons.prems(1) by (simp_all add: p)
  have "\<not> k < k'" using Cons.prems(2) h by (auto simp: p)
  then show ?case using Cons.IH [OF t] Cons.prems(2) by (auto simp: p)
qed

lemma map_snd_by_keys:
  assumes "distinct (map fst kvs)"
  shows "map snd kvs = map (\<lambda>k. the (map_of kvs k)) (map fst kvs)"
  using assms
proof (induction kvs)
  case Nil
  then show ?case by simp
next
  case (Cons p kvs)
  obtain k v where p: "p = (k, v)" by (cases p)
  have d: "distinct (map fst kvs)" and n: "k \<notin> set (map fst kvs)"
    using Cons.prems by (simp_all add: p)
  have "map (\<lambda>x. the (map_of (p # kvs) x)) (map fst kvs) = map (\<lambda>x. the (map_of kvs x)) (map fst kvs)"
    using n by (intro map_cong) (auto simp: p)
  then show ?case using Cons.IH [OF d] by (simp add: p)
qed

subsection \<open>The comparator sort\<close>

lemma mset_insertSorted: "mset (insertSorted cmp x ys) = add_mset x (mset ys)"
  by (induction ys) simp_all

lemma mset_array_sort: "mset (array_sort cmp xs) = mset xs"
  unfolding array_sort_def by (induction xs) (simp_all add: mset_insertSorted)

lemma set_array_sort: "set (array_sort cmp xs) = set xs"
  using mset_array_sort [of cmp xs] by (metis set_mset_mset)

lemma sorted_insertSorted:
  assumes tr: "\<And>a b c. a \<in> S \<Longrightarrow> b \<in> S \<Longrightarrow> c \<in> S \<Longrightarrow> cmp a b \<le> 0 \<Longrightarrow> cmp b c \<le> 0 \<Longrightarrow> cmp a c \<le> 0"
    and tot: "\<And>y. y \<in> set ys \<Longrightarrow> cmp x y \<le> 0 \<or> cmp y x \<le> 0"
    and mem: "x \<in> S" "set ys \<subseteq> S"
    and srt: "sorted_wrt (\<lambda>a b. cmp a b \<le> 0) ys"
  shows "sorted_wrt (\<lambda>a b. cmp a b \<le> 0) (insertSorted cmp x ys)"
  using tot mem(2) srt
proof (induction ys)
  case Nil
  then show ?case by simp
next
  case (Cons y ys)
  have y: "y \<in> S" and ys: "set ys \<subseteq> S" using Cons.prems(2) by simp_all
  have s: "sorted_wrt (\<lambda>a b. cmp a b \<le> 0) ys" and h: "\<forall>z \<in> set ys. cmp y z \<le> 0"
    using Cons.prems(3) by simp_all
  consider (le) "cmp x y \<le> 0" | (gt) "\<not> cmp x y \<le> 0" by blast
  then show ?case
  proof cases
    case le
    have "cmp x z \<le> 0" if "z \<in> set ys" for z
      using tr [OF mem(1) y _ le] h that ys by blast
    then show ?thesis using le Cons.prems(3) by simp
  next
    case gt
    then have yx: "cmp y x \<le> 0" using Cons.prems(1) [of y] by simp
    have i: "sorted_wrt (\<lambda>a b. cmp a b \<le> 0) (insertSorted cmp x ys)"
      by (rule Cons.IH) (use Cons.prems(1) ys s in simp_all)
    have "set (insertSorted cmp x ys) = insert x (set ys)"
      using mset_insertSorted [of cmp x ys] by (metis set_mset_add_mset_insert set_mset_mset)
    then show ?thesis using gt yx h i by simp
  qed
qed

lemma sorted_array_sort:
  assumes tr: "\<And>a b c. a \<in> set xs \<Longrightarrow> b \<in> set xs \<Longrightarrow> c \<in> set xs
      \<Longrightarrow> cmp a b \<le> 0 \<Longrightarrow> cmp b c \<le> 0 \<Longrightarrow> cmp a c \<le> 0"
    and tot: "\<And>a b. a \<in> set xs \<Longrightarrow> b \<in> set xs \<Longrightarrow> a \<noteq> b \<Longrightarrow> cmp a b \<le> 0 \<or> cmp b a \<le> 0"
    and dist: "distinct xs"
  shows "sorted_wrt (\<lambda>a b. cmp a b \<le> 0) (array_sort cmp xs)"
proof -
  have "sorted_wrt (\<lambda>a b. cmp a b \<le> 0) (array_sort cmp ys)"
    if "set ys \<subseteq> set xs" "distinct ys" for ys
    using that
  proof (induction ys)
    case Nil
    then show ?case by (simp add: array_sort_def)
  next
    case (Cons y ys)
    have s: "sorted_wrt (\<lambda>a b. cmp a b \<le> 0) (array_sort cmp ys)"
      by (rule Cons.IH) (use Cons.prems in simp_all)
    have "sorted_wrt (\<lambda>a b. cmp a b \<le> 0) (insertSorted cmp y (array_sort cmp ys))"
    proof (rule sorted_insertSorted [where S = "set xs"])
      fix z assume "z \<in> set (array_sort cmp ys)"
      then have "z \<in> set ys" by (simp add: set_array_sort)
      then have "z \<in> set xs" "y \<in> set xs" "y \<noteq> z" using Cons.prems by auto
      then show "cmp y z \<le> 0 \<or> cmp z y \<le> 0" using tot by blast
    next
      fix a b c
      assume "a \<in> set xs" "b \<in> set xs" "c \<in> set xs" "cmp a b \<le> 0" "cmp b c \<le> 0"
      then show "cmp a c \<le> 0" by (rule tr)
    next
      show "y \<in> set xs" using Cons.prems(1) by simp
    next
      show "set (array_sort cmp ys) \<subseteq> set xs"
        using Cons.prems(1) by (simp add: set_array_sort)
    next
      show "sorted_wrt (\<lambda>a b. cmp a b \<le> 0) (array_sort cmp ys)" by (rule s)
    qed
    then show ?case by (simp add: array_sort_def)
  qed
  then show ?thesis using dist by simp
qed

subsection \<open>The loop over the users\<close>

lemma groupUsers_Some:
  assumes "sorted_wrt (<) (map fst gm)"
    and "groupUsers hst phMap hbu wbu days users gm = Some gm'"
  shows "map fst gm' = map fst gm
    \<and> (\<forall>k. map_of gm' k =
          map_option (\<lambda>g. g\<lparr>employees := employees g @ map (employeeData hst phMap hbu wbu days)
                [u \<leftarrow> users. isIncluded hst phMap hbu wbu days u \<and> userGroupId u = k]\<rparr>) (map_of gm k))
    \<and> (\<forall>u \<in> set users. isIncluded hst phMap hbu wbu days u \<longrightarrow> userGroupId u \<in> set (map fst gm))"
  using assms
proof (induction users arbitrary: gm)
  case Nil
  have "map_option (\<lambda>g::group_entry. g) (map_of gm k) = map_of gm k" for k
    by (simp add: option.map_ident)
  then show ?case using Nil by (simp add: option.map_ident)
next
  case (Cons u users)
  consider (inc) "isIncluded hst phMap hbu wbu days u" | (out) "\<not> isIncluded hst phMap hbu wbu days u"
    by blast
  then show ?case
  proof cases
    case out
    then have "groupUsers hst phMap hbu wbu days users gm = Some gm'" using Cons.prems(2) by simp
    from Cons.IH [OF Cons.prems(1) this] show ?thesis using out by simp
  next
    case inc
    then obtain g where g: "map_of gm (userGroupId u) = Some g"
      and r: "groupUsers hst phMap hbu wbu days users
          (obj_put (userGroupId u)
             (g\<lparr>employees := employees g @ [employeeData hst phMap hbu wbu days u]\<rparr>) gm) = Some gm'"
      using Cons.prems(2) by (auto split: option.splits)
    let ?gm1 = "obj_put (userGroupId u)
        (g\<lparr>employees := employees g @ [employeeData hst phMap hbu wbu days u]\<rparr>) gm"
    have kin: "userGroupId u \<in> set (map fst gm)"
      using g by (metis map_of_eq_None_iff option.distinct(1) set_map)
    have s1: "sorted_wrt (<) (map fst ?gm1)" by (rule sorted_obj_put [OF Cons.prems(1)])
    have k1: "map fst ?gm1 = map fst gm" by (rule keys_obj_put_present [OF Cons.prems(1) kin])
    have m1: "map_of ?gm1 = (map_of gm)(userGroupId u \<mapsto>
        g\<lparr>employees := employees g @ [employeeData hst phMap hbu wbu days u]\<rparr>)"
      by (rule map_of_obj_put [OF Cons.prems(1)])
    note ih = Cons.IH [OF s1 r]
    have a: "map fst gm' = map fst gm" using ih k1 by simp
    have b: "map_of gm' k =
          map_option (\<lambda>g. g\<lparr>employees := employees g @ map (employeeData hst phMap hbu wbu days)
                [u \<leftarrow> u # users. isIncluded hst phMap hbu wbu days u \<and> userGroupId u = k]\<rparr>) (map_of gm k)"
      for k
    proof -
      have "map_of gm' k =
          map_option (\<lambda>g. g\<lparr>employees := employees g @ map (employeeData hst phMap hbu wbu days)
                [u \<leftarrow> users. isIncluded hst phMap hbu wbu days u \<and> userGroupId u = k]\<rparr>) (map_of ?gm1 k)"
        using ih by blast
      then show ?thesis unfolding m1 using inc g by (simp add: map_option_case split: option.splits)
    qed
    have c: "\<forall>v \<in> set (u # users). isIncluded hst phMap hbu wbu days v \<longrightarrow> userGroupId v \<in> set (map fst gm)"
      using ih kin k1 by simp
    show ?thesis using a b c by blast
  qed
qed

lemma initialGroupMap_ok:
  "sorted_wrt (<) (map fst (initialGroupMap allGroups))
   \<and> (\<forall>(k, g) \<in> set (initialGroupMap allGroups). ge_id g = k \<and> employees g = [])"
proof -
  let ?ok = "\<lambda>m :: (nat \<times> group_entry) list.
    sorted_wrt (<) (map fst m) \<and> (\<forall>(k, g) \<in> set m. ge_id g = k \<and> employees g = [])"
  have put: "?ok (obj_put k \<lparr>ge_id = k, ge_name = n, employees = []\<rparr> m)" if "?ok m" for k n m
    using that sorted_obj_put [of m k] set_obj_put [of k "\<lparr>ge_id = k, ge_name = n, employees = []\<rparr>" m]
    by auto
  have "?ok (fold (\<lambda>g m. obj_put (grp_id g) \<lparr>ge_id = grp_id g, ge_name = grp_name g, employees = []\<rparr> m) gs m)"
    if "?ok m" for gs m
    using that
  proof (induction gs arbitrary: m)
    case Nil
    then show ?case by simp
  next
    case (Cons a gs)
    show ?case unfolding fold_simps by (rule Cons.IH) (rule put [OF Cons.prems])
  qed
  from this [of "[]"] show ?thesis unfolding initialGroupMap_def by (intro put) simp
qed

lemma by_person_Some:
  assumes "by_person hst lc allUsers allGroups phs hols wls days = Some v"
  shows "\<exists>gs. groupedEmployees v = array_sort (groupCompare lc) [g \<leftarrow> gs. length (employees g) > 0]
    \<and> distinct (map ge_id gs)
    \<and> (\<forall>g \<in> set gs. employees g =
          map (employeeData hst (publicHolidaysMap phs) (holidaysByUser hols) (workLocationsByUser wls) days)
            [u \<leftarrow> allUsers. isIncluded hst (publicHolidaysMap phs) (holidaysByUser hols)
                (workLocationsByUser wls) days u \<and> userGroupId u = ge_id g])
    \<and> (\<forall>u \<in> set allUsers. isIncluded hst (publicHolidaysMap phs) (holidaysByUser hols)
                (workLocationsByUser wls) days u \<longrightarrow> userGroupId u \<in> ge_id ` set gs)"
proof -
  let ?ph = "publicHolidaysMap phs" and ?hb = "holidaysByUser hols" and ?wb = "workLocationsByUser wls"
  let ?init = "initialGroupMap allGroups"
  obtain gm where gm: "groupUsers hst ?ph ?hb ?wb days allUsers ?init = Some gm"
    and v: "groupedEmployees v =
      array_sort (groupCompare lc) [g \<leftarrow> map snd gm. length (employees g) > 0]"
    using assms by (auto simp: by_person_def Let_def split: option.splits)
  have i: "sorted_wrt (<) (map fst ?init)"
    and i2: "\<And>k g. (k, g) \<in> set ?init \<Longrightarrow> ge_id g = k \<and> employees g = []"
    using initialGroupMap_ok [of allGroups] by auto
  note G = groupUsers_Some [OF i gm]
  have keys: "map fst gm = map fst ?init" using G by blast
  have dk: "distinct (map fst gm)"
    using i unfolding keys by (simp add: strict_sorted_iff)
  have ent: "ge_id g = k \<and> employees g =
      map (employeeData hst ?ph ?hb ?wb days) [u \<leftarrow> allUsers. isIncluded hst ?ph ?hb ?wb days u \<and> userGroupId u = k]"
    if "(k, g) \<in> set gm" for k g
  proof -
    have "map_of gm k = Some g" using that dk by simp
    moreover have "map_of gm k = map_option (\<lambda>g. g\<lparr>employees := employees g @
        map (employeeData hst ?ph ?hb ?wb days)
          [u \<leftarrow> allUsers. isIncluded hst ?ph ?hb ?wb days u \<and> userGroupId u = k]\<rparr>) (map_of ?init k)"
      using G by blast
    ultimately obtain g0 where g0: "map_of ?init k = Some g0"
      and e: "g = g0\<lparr>employees := employees g0 @ map (employeeData hst ?ph ?hb ?wb days)
          [u \<leftarrow> allUsers. isIncluded hst ?ph ?hb ?wb days u \<and> userGroupId u = k]\<rparr>"
      by auto
    from i2 [OF map_of_SomeD [OF g0]] show ?thesis unfolding e by simp
  qed
  have ids: "map ge_id (map snd gm) = map fst gm"
    using ent by (auto intro!: map_cong simp: comp_def)
  have a: "distinct (map ge_id (map snd gm))" unfolding ids by (rule dk)
  have b: "\<forall>g \<in> set (map snd gm). employees g =
      map (employeeData hst ?ph ?hb ?wb days)
        [u \<leftarrow> allUsers. isIncluded hst ?ph ?hb ?wb days u \<and> userGroupId u = ge_id g]"
    using ent by auto
  have c: "\<forall>u \<in> set allUsers. isIncluded hst ?ph ?hb ?wb days u \<longrightarrow> userGroupId u \<in> ge_id ` set (map snd gm)"
  proof (intro ballI impI)
    fix u assume "u \<in> set allUsers" "isIncluded hst ?ph ?hb ?wb days u"
    then have "userGroupId u \<in> set (map fst gm)" using G keys by simp
    then show "userGroupId u \<in> ge_id ` set (map snd gm)" using ids by (metis set_map)
  qed
  show ?thesis using v a b c by blast
qed

lemma groupCompare_le:
  "groupCompare lc a b \<le> 0 \<longleftrightarrow> ge_id a \<noteq> 0 \<and> (ge_id b = 0 \<or> lc (ge_name a) (ge_name b) \<le> 0)"
  by (simp add: groupCompare_def)

lemma sorted_wrt_butlast:
  assumes "sorted_wrt R xs" and "x \<in> set (butlast xs)"
  shows "\<exists>y \<in> set xs. R x y"
  using assms
proof (induction xs)
  case Nil
  then show ?case by simp
next
  case (Cons a xs)
  then show ?case by (auto split: if_splits)
qed

lemma codeCompare_total: "codeCompare a b \<le> 0 \<or> codeCompare b a \<le> 0"
  by (induction a b rule: codeCompare.induct) auto

lemma codeCompare_trans:
  assumes "codeCompare a b \<le> 0" and "codeCompare b c \<le> 0"
  shows "codeCompare a c \<le> 0"
  using assms
proof (induction a arbitrary: b c)
  case Nil
  then show ?case by (cases c) simp_all
next
  case (Cons x xs)
  obtain y ys where b: "b = y # ys" using Cons.prems(1) by (cases b) simp_all
  obtain z zs where c: "c = z # zs" using Cons.prems(2) b by (cases c) simp_all
  show ?case
    using Cons.prems Cons.IH [of ys zs] unfolding b c
    by (auto split: if_splits)
qed

lemma groupCompare_trans:
  assumes "\<forall>a b c. lc a b \<le> 0 \<and> lc b c \<le> 0 \<longrightarrow> lc a c \<le> 0"
    and "groupCompare lc a b \<le> 0" and "groupCompare lc b c \<le> 0"
  shows "groupCompare lc a c \<le> 0"
  using assms unfolding groupCompare_le by blast

lemma groupCompare_total:
  assumes "\<forall>a b. lc a b \<le> 0 \<or> lc b a \<le> 0" and "ge_id a \<noteq> ge_id b"
  shows "groupCompare lc a b \<le> 0 \<or> groupCompare lc b a \<le> 0"
  using assms unfolding groupCompare_le by (metis (full_types))

text \<open>
  Claim C8. When the view is rendered and \<^verbatim>\<open>localeCompare\<close> is a total and transitive
  comparison, no group in the output is without employees: a group holds exactly the users
  of that group that have a holiday date or a remote date, in the order of the directory,
  and the bucket with id 0 holds those without a group; a group with no such user is
  dropped and every such user's group is there. The groups other than the bucket with id 0 are
  in the order of their names, and the bucket with id 0, when it is there, comes last
  whatever its name is.
\<close>

theorem by_person_groups_sorted:
  assumes "by_person hst lc allUsers allGroups phs hols wls days = Some v"
    and "\<forall>a b. lc a b \<le> 0 \<or> lc b a \<le> 0"
    and "\<forall>a b c. lc a b \<le> 0 \<and> lc b c \<le> 0 \<longrightarrow> lc a c \<le> 0"
  shows "(\<forall>g \<in> set (groupedEmployees v). employees g \<noteq> [])
    \<and> (\<forall>g \<in> set (groupedEmployees v). employees g =
          map (employeeData hst (publicHolidaysMap phs) (holidaysByUser hols) (workLocationsByUser wls) days)
            [u \<leftarrow> allUsers. isIncluded hst (publicHolidaysMap phs) (holidaysByUser hols)
                (workLocationsByUser wls) days u \<and> userGroupId u = ge_id g])
    \<and> (\<forall>u \<in> set allUsers. isIncluded hst (publicHolidaysMap phs) (holidaysByUser hols)
                (workLocationsByUser wls) days u
          \<longrightarrow> userGroupId u \<in> ge_id ` set (groupedEmployees v))
    \<and> distinct (map ge_id (groupedEmployees v))
    \<and> sorted_wrt (\<lambda>a b. ge_id a \<noteq> 0 \<and> (ge_id b = 0 \<or> lc (ge_name a) (ge_name b) \<le> 0))
          (groupedEmployees v)
    \<and> sorted_wrt (\<lambda>a b. lc (ge_name a) (ge_name b) \<le> 0) [g \<leftarrow> groupedEmployees v. ge_id g \<noteq> 0]
    \<and> (\<forall>g \<in> set (butlast (groupedEmployees v)). ge_id g \<noteq> 0)"
proof -
  let ?ED = "employeeData hst (publicHolidaysMap phs) (holidaysByUser hols) (workLocationsByUser wls) days"
  let ?inc = "isIncluded hst (publicHolidaysMap phs) (holidaysByUser hols) (workLocationsByUser wls) days"
  let ?R = "\<lambda>a b. ge_id a \<noteq> 0 \<and> (ge_id b = 0 \<or> lc (ge_name a) (ge_name b) \<le> 0)"
  from by_person_Some [OF assms(1)] obtain gs where
    v: "groupedEmployees v = array_sort (groupCompare lc) [g \<leftarrow> gs. length (employees g) > 0]"
    and d: "distinct (map ge_id gs)"
    and e: "\<forall>g \<in> set gs. employees g = map ?ED [u \<leftarrow> allUsers. ?inc u \<and> userGroupId u = ge_id g]"
    and c: "\<forall>u \<in> set allUsers. ?inc u \<longrightarrow> userGroupId u \<in> ge_id ` set gs"
    by blast
  let ?xs = "[g \<leftarrow> gs. length (employees g) > 0]"
  have sv: "set (groupedEmployees v) = set ?xs" unfolding v by (rule set_array_sort)
  have dx: "distinct (map ge_id ?xs)" using d by (rule distinct_map_filter)
  have 1: "\<forall>g \<in> set (groupedEmployees v). employees g \<noteq> []" unfolding sv by simp
  have 2: "\<forall>g \<in> set (groupedEmployees v). employees g =
      map ?ED [u \<leftarrow> allUsers. ?inc u \<and> userGroupId u = ge_id g]"
    unfolding sv using e by simp
  have 3: "\<forall>u \<in> set allUsers. ?inc u \<longrightarrow> userGroupId u \<in> ge_id ` set (groupedEmployees v)"
  proof (intro ballI impI)
    fix u assume u: "u \<in> set allUsers" "?inc u"
    then obtain g where g: "g \<in> set gs" "ge_id g = userGroupId u" using c by force
    have "?ED u \<in> set (map ?ED [u \<leftarrow> allUsers. ?inc u \<and> userGroupId u = ge_id g])"
      using u g by simp
    moreover have "employees g = map ?ED [u \<leftarrow> allUsers. ?inc u \<and> userGroupId u = ge_id g]"
      using e g(1) by (rule bspec)
    ultimately have "?ED u \<in> set (employees g)" by simp
    then have "employees g \<noteq> []" by (metis empty_iff empty_set)
    then have "g \<in> set ?xs" using g(1) by simp
    then show "userGroupId u \<in> ge_id ` set (groupedEmployees v)"
      unfolding sv using g(2) by force
  qed
  have "mset (map ge_id (groupedEmployees v)) = mset (map ge_id ?xs)"
    unfolding v by (simp add: mset_array_sort)
  then have 4: "distinct (map ge_id (groupedEmployees v))"
    using dx by (metis mset_eq_imp_distinct_iff)
  have "sorted_wrt (\<lambda>a b. groupCompare lc a b \<le> 0) (array_sort (groupCompare lc) ?xs)"
  proof (rule sorted_array_sort)
    fix a b c
    assume "groupCompare lc a b \<le> 0" "groupCompare lc b c \<le> 0"
    then show "groupCompare lc a c \<le> 0" by (rule groupCompare_trans [OF assms(3)])
  next
    fix a b
    assume "a \<in> set ?xs" "b \<in> set ?xs" "a \<noteq> b"
    then have "ge_id a \<noteq> ge_id b" using dx by (meson distinct_map inj_onD)
    then show "groupCompare lc a b \<le> 0 \<or> groupCompare lc b a \<le> 0"
      by (rule groupCompare_total [OF assms(2)])
  next
    show "distinct ?xs" using dx by (simp add: distinct_map)
  qed
  then have 5: "sorted_wrt ?R (groupedEmployees v)"
    unfolding v groupCompare_le .
  have "sorted_wrt ?R [g \<leftarrow> groupedEmployees v. ge_id g \<noteq> 0]"
    using 5 by (rule sorted_wrt_filter)
  then have 6: "sorted_wrt (\<lambda>a b. lc (ge_name a) (ge_name b) \<le> 0) [g \<leftarrow> groupedEmployees v. ge_id g \<noteq> 0]"
    by (rule sorted_wrt_mono_rel [rotated]) auto
  have 7: "\<forall>g \<in> set (butlast (groupedEmployees v)). ge_id g \<noteq> 0"
    using sorted_wrt_butlast [OF 5] by blast
  show ?thesis using 1 2 3 4 5 6 7 by blast
qed

lemma by_person_demo:
  "\<exists>v. by_person utcHost codeCompare demoUsers demoGroups [] demoHolidays [] [''2024-05-03''] = Some v
     \<and> map ge_name (groupedEmployees v) = [''Alpha'', ''Zeta'', ''Bez grupy'']
     \<and> map ge_id (groupedEmployees v) = [2, 1, 0]
     \<and> map (map emp_name \<circ> employees) (groupedEmployees v) = [[''Bob''], [''Ann''], [''cy'']]
     \<and> totalEmployeesWithHolidays v = 3 \<and> totalEmployeesWithRemoteWork v = 0"
  by (simp add: by_person_def demoUsers_def demoGroups_def demoHolidays_def isIncluded_def
      userGroupId_def userHolidayDates_def holidaysByUser_def workLocationsByUser_def
      publicHolidaysMap_def userRemoteDates_def userLocations_def isRemoteWorkDay_def
      initialGroupMap_def employeeData_def array_sort_def groupCompare_def Let_def
      formatDate_examples)

theorem by_person_groups_sorted_witness:
  "by_person utcHost codeCompare demoUsers demoGroups [] demoHolidays [] [''2024-05-03''] \<noteq> None
   \<and> map ge_name (groupedEmployees
        (the (by_person utcHost codeCompare demoUsers demoGroups [] demoHolidays [] [''2024-05-03''])))
       = [''Alpha'', ''Zeta'', ''Bez grupy'']
   \<and> sorted_wrt (\<lambda>a b. codeCompare (ge_name a) (ge_name b) \<le> 0)
        [g \<leftarrow> groupedEmployees
           (the (by_person utcHost codeCompare demoUsers demoGroups [] demoHolidays [] [''2024-05-03''])).
         ge_id g \<noteq> 0]
   \<and> distinct (map ge_id (groupedEmployees
        (the (by_person utcHost codeCompare demoUsers demoGroups [] demoHolidays [] [''2024-05-03'']))))"
proof -
  from by_person_demo obtain v where
    e: "by_person utcHost codeCompare demoUsers demoGroups [] demoHolidays [] [''2024-05-03''] = Some v"
    and n: "map ge_name (groupedEmployees v) = [''Alpha'', ''Zeta'', ''Bez grupy'']"
    by (elim exE conjE)
  have tot: "\<forall>a b. codeCompare a b \<le> 0 \<or> codeCompare b a \<le> 0"
    using codeCompare_total by blast
  have tr: "\<forall>a b c. codeCompare a b \<le> 0 \<and> codeCompare b c \<le> 0 \<longrightarrow> codeCompare a c \<le> 0"
    using codeCompare_trans by blast
  note t = by_person_groups_sorted [OF e tot tr]
  show ?thesis unfolding e using n t by simp
qed

subsection \<open>The maps of the view\<close>

lemma map_of_fold_update:
  "map_of (fold (\<lambda>x m. AList.update (f x) (g x) m) xs m0) =
     map_of m0 ++ map_of (rev (map (\<lambda>x. (f x, g x)) xs))"
proof (induction xs arbitrary: m0)
  case Nil
  then show ?case by simp
next
  case (Cons x xs)
  have "(map_of m0)(f x \<mapsto> g x) ++ map_of (rev (map (\<lambda>x. (f x, g x)) xs)) =
      map_of m0 ++ (map_of (rev (map (\<lambda>x. (f x, g x)) xs) @ [(f x, g x)]))"
    by (rule ext) (simp add: map_add_def split: option.splits)
  then show ?case unfolding fold_simps Cons.IH update_conv' by simp
qed

lemma map_of_publicHolidaysMap:
  "map_of (publicHolidaysMap phs) =
     map_of (rev (map (\<lambda>ph. (formatDate (holiday_date ph), name ph)) phs))"
  unfolding publicHolidaysMap_def map_of_fold_update by simp

lemma publicHolidaysMap_dom:
  "(map_of (publicHolidaysMap phs) key \<noteq> None) =
     (key \<in> (\<lambda>ph. formatDate (holiday_date ph)) ` set phs)"
proof -
  have "(map_of (publicHolidaysMap phs) key = None) =
      (key \<notin> fst ` set (rev (map (\<lambda>ph. (formatDate (holiday_date ph), name ph)) phs)))"
    unfolding map_of_publicHolidaysMap by (rule map_of_eq_None_iff)
  then show ?thesis by (simp add: image_image)
qed

lemma publicHolidaysMap_named:
  assumes "\<forall>ph \<in> set phs. name ph \<noteq> []"
  shows "(case map_of (publicHolidaysMap phs) key of None \<Rightarrow> False | Some n \<Rightarrow> n \<noteq> []) =
     (key \<in> (\<lambda>ph. formatDate (holiday_date ph)) ` set phs)"
proof -
  have "n \<noteq> []" if "map_of (publicHolidaysMap phs) key = Some n" for n
  proof -
    from that have "(key, n) \<in> set (rev (map (\<lambda>ph. (formatDate (holiday_date ph), name ph)) phs))"
      unfolding map_of_publicHolidaysMap by (rule map_of_SomeD)
    then show ?thesis using assms by auto
  qed
  then show ?thesis
    using publicHolidaysMap_dom [of phs key] by (auto split: option.splits)
qed

lemma holidaysByUser_fold:
  "map_of (fold (\<lambda>h m. AList.update (h_user_id h)
                   ((case map_of m (h_user_id h) of None \<Rightarrow> [] | Some hs \<Rightarrow> hs) @ [h]) m) hols m0) uid =
     (if [h \<leftarrow> hols. h_user_id h = uid] = [] then map_of m0 uid
      else Some ((case map_of m0 uid of None \<Rightarrow> [] | Some hs \<Rightarrow> hs) @ [h \<leftarrow> hols. h_user_id h = uid]))"
proof (induction hols arbitrary: m0)
  case Nil
  then show ?case by simp
next
  case (Cons h hols)
  show ?case
    unfolding fold_simps Cons.IH by (simp add: update_conv')
qed

lemma userHolidayDates_eq:
  "userHolidayDates (holidaysByUser hols) u =
     map (\<lambda>h. formatDate (h_holiday_date h)) [h \<leftarrow> hols. h_user_id h = user_id u]"
  unfolding userHolidayDates_def holidaysByUser_def holidaysByUser_fold by simp

lemma workLocationsByUser_fold:
  "(case map_of (fold (\<lambda>location m. AList.update (wl_user_id location)
                   (AList.update (formatDate (work_date location)) (is_onsite location)
                      (case map_of m (wl_user_id location) of None \<Rightarrow> [] | Some ls \<Rightarrow> ls)) m) wls m0) uid
      of None \<Rightarrow> Map.empty | Some ls \<Rightarrow> map_of ls) =
     (case map_of m0 uid of None \<Rightarrow> Map.empty | Some ls \<Rightarrow> map_of ls)
       ++ map_of (rev (map (\<lambda>l. (formatDate (work_date l), is_onsite l))
                    [l \<leftarrow> wls. wl_user_id l = uid]))"
proof (induction wls arbitrary: m0)
  case Nil
  then show ?case by simp
next
  case (Cons l wls)
  show ?case
    unfolding fold_simps Cons.IH
    by (auto simp: update_conv' fun_eq_iff map_add_def split: option.splits)
qed

lemma userLocations_eq:
  "map_of (userLocations (workLocationsByUser wls) u) =
     map_of (rev (map (\<lambda>l. (formatDate (work_date l), is_onsite l))
                    [l \<leftarrow> wls. wl_user_id l = user_id u]))"
proof -
  have "map_of (userLocations (workLocationsByUser wls) u) =
      (case map_of (workLocationsByUser wls) (user_id u) of None \<Rightarrow> Map.empty | Some ls \<Rightarrow> map_of ls)"
    by (simp add: userLocations_def split: option.splits)
  then show ?thesis unfolding workLocationsByUser_def workLocationsByUser_fold by simp
qed

lemma isRemoteWorkDay_named:
  assumes "\<forall>ph \<in> set phs. name ph \<noteq> []" and "CHR ''T'' \<notin> set d"
  shows "isRemoteWorkDay hst (publicHolidaysMap phs) (userHolidayDates (holidaysByUser hols) u)
           (userLocations (workLocationsByUser wls) u) d =
     (map_of (rev (map (\<lambda>l. (formatDate (work_date l), is_onsite l))
                [l \<leftarrow> wls. wl_user_id l = user_id u])) d = Some False
      \<and> \<not> isWeekendDay (map_option (localDay hst) (newDate hst d))
      \<and> d \<notin> (\<lambda>ph. formatDate (holiday_date ph)) ` set phs
      \<and> d \<notin> (\<lambda>h. formatDate (h_holiday_date h)) ` {h \<in> set hols. h_user_id h = user_id u})"
proof -
  have k: "takeWhile (\<lambda>c. c \<noteq> CHR ''T'') d = d" using assms(2) by (auto simp: takeWhile_eq_all_conv)
  show ?thesis
    unfolding isRemoteWorkDay_def Let_def k publicHolidaysMap_named [OF assms(1)]
      userLocations_eq userHolidayDates_eq
    by auto
qed

lemma by_person_employees:
  assumes "by_person hst lc allUsers allGroups phs hols wls days = Some v"
  shows "(\<forall>u \<in> set allUsers.
            (\<exists>g \<in> set (groupedEmployees v).
               employeeData hst (publicHolidaysMap phs) (holidaysByUser hols) (workLocationsByUser wls) days u
                 \<in> set (employees g))
            \<longleftrightarrow> (userHolidayDates (holidaysByUser hols) u \<noteq> []
                 \<or> userRemoteDates hst (publicHolidaysMap phs) (holidaysByUser hols)
                      (workLocationsByUser wls) days u \<noteq> []))
    \<and> (\<forall>g \<in> set (groupedEmployees v). \<forall>e \<in> set (employees g). \<exists>u \<in> set allUsers.
            e = employeeData hst (publicHolidaysMap phs) (holidaysByUser hols) (workLocationsByUser wls) days u)
    \<and> totalEmployeesWithHolidays v =
         length [e \<leftarrow> concat (map employees (groupedEmployees v)). emp_holidayCount e > 0]
    \<and> totalEmployeesWithRemoteWork v =
         length [e \<leftarrow> concat (map employees (groupedEmployees v)). emp_remoteDaysCount e > 0]"
proof -
  let ?ED = "employeeData hst (publicHolidaysMap phs) (holidaysByUser hols) (workLocationsByUser wls) days"
  let ?inc = "isIncluded hst (publicHolidaysMap phs) (holidaysByUser hols) (workLocationsByUser wls) days"
  from by_person_Some [OF assms] obtain gs where
    v: "groupedEmployees v = array_sort (groupCompare lc) [g \<leftarrow> gs. length (employees g) > 0]"
    and e: "\<forall>g \<in> set gs. employees g = map ?ED [u \<leftarrow> allUsers. ?inc u \<and> userGroupId u = ge_id g]"
    and c: "\<forall>u \<in> set allUsers. ?inc u \<longrightarrow> userGroupId u \<in> ge_id ` set gs"
    by blast
  have sv: "set (groupedEmployees v) = {g \<in> set gs. employees g \<noteq> []}"
    unfolding v set_array_sort by auto
  have emp: "set (employees g) = ?ED ` {u \<in> set allUsers. ?inc u \<and> userGroupId u = ge_id g}"
    if "g \<in> set gs" for g
    using e that by auto
  have inc_ED: "?inc u \<longleftrightarrow> emp_holidays (?ED u) \<noteq> [] \<or> emp_remoteDates (?ED u) \<noteq> []" for u
    by (simp add: isIncluded_def employeeData_def)
  have 1: "(\<exists>g \<in> set (groupedEmployees v). ?ED u \<in> set (employees g)) \<longleftrightarrow> ?inc u"
    if u: "u \<in> set allUsers" for u
  proof
    assume "\<exists>g \<in> set (groupedEmployees v). ?ED u \<in> set (employees g)"
    then obtain g where "g \<in> set gs" "?ED u \<in> set (employees g)" unfolding sv by blast
    then obtain u' where "?ED u = ?ED u'" "?inc u'" using emp [of g] by auto
    then show "?inc u" using inc_ED [of u] inc_ED [of u'] by simp
  next
    assume i: "?inc u"
    then obtain g where g: "g \<in> set gs" "ge_id g = userGroupId u" using c u by force
    have "u \<in> {u \<in> set allUsers. ?inc u \<and> userGroupId u = ge_id g}"
      using u i g(2) by simp
    then have m: "?ED u \<in> set (employees g)" unfolding emp [OF g(1)] by (rule imageI)
    then have "employees g \<noteq> []" by (metis empty_iff empty_set)
    then have "g \<in> set (groupedEmployees v)" unfolding sv using g(1) by simp
    then show "\<exists>g \<in> set (groupedEmployees v). ?ED u \<in> set (employees g)"
      using m by (rule bexI [rotated])
  qed
  have 2: "\<forall>g \<in> set (groupedEmployees v). \<forall>e \<in> set (employees g). \<exists>u \<in> set allUsers. e = ?ED u"
  proof (intro ballI)
    fix g e assume "g \<in> set (groupedEmployees v)" "e \<in> set (employees g)"
    then have "e \<in> ?ED ` {u \<in> set allUsers. ?inc u \<and> userGroupId u = ge_id g}"
      unfolding sv using emp [of g] by simp
    then show "\<exists>u \<in> set allUsers. e = ?ED u" by auto
  qed
  have 3: "totalEmployeesWithHolidays v =
         length [e \<leftarrow> concat (map employees (groupedEmployees v)). emp_holidayCount e > 0]"
    and 4: "totalEmployeesWithRemoteWork v =
         length [e \<leftarrow> concat (map employees (groupedEmployees v)). emp_remoteDaysCount e > 0]"
    using assms by (auto simp: by_person_def Let_def split: option.splits)
  have incl: "\<forall>u \<in> set allUsers.
      (\<exists>g \<in> set (groupedEmployees v). ?ED u \<in> set (employees g))
        \<longleftrightarrow> (userHolidayDates (holidaysByUser hols) u \<noteq> []
             \<or> userRemoteDates hst (publicHolidaysMap phs) (holidaysByUser hols)
                  (workLocationsByUser wls) days u \<noteq> [])"
    using 1 by (simp add: isIncluded_def)
  show ?thesis using incl 2 3 4 by blast
qed

text \<open>
  Claim C5 has the remote dates of a user exclude every public holiday. The route reads the
  public holiday of a day off the object that maps the formatted date to the holiday's name
  and tests what it reads for truthiness, so a public holiday whose name is empty or null is
  not seen: a user who declared remote work on Wednesday 2024-05-01, a public holiday
  without a name, gets that day as a remote date, enters the view on the strength of it and
  is counted among the employees with remote work. With a name on the same holiday the user
  has no remote date and the view is empty. The lemmas \<open>isRemoteWorkDay_named\<close> and
  \<open>by_person_employees\<close> above give what holds: with a name on every public holiday the test
  is the one of the claim, a user is in the view exactly with a holiday date or a remote
  date, and the two counters count the employees of the view with a positive count.
\<close>

theorem by_person_unnamed_public_holiday:
  "getDay 19844 = 3
   \<and> map_option (\<lambda>v. (map (map emp_remoteDates \<circ> employees) (groupedEmployees v),
                      totalEmployeesWithRemoteWork v))
       (by_person utcHost codeCompare
          [\<lparr>user_id = 3, user_name = [], email = ''cy@example.org'', group_id = None\<rparr>] []
          [\<lparr>holiday_date = 19844, name = []\<rparr>] []
          [\<lparr>wl_user_id = 3, work_date = 19844, is_onsite = False\<rparr>] [''2024-05-01''])
       = Some ([[[''2024-05-01'']]], 1)
   \<and> map_option (\<lambda>v. (map (map emp_remoteDates \<circ> employees) (groupedEmployees v),
                      totalEmployeesWithRemoteWork v))
       (by_person utcHost codeCompare
          [\<lparr>user_id = 3, user_name = [], email = ''cy@example.org'', group_id = None\<rparr>] []
          [\<lparr>holiday_date = 19844, name = ''Labour Day''\<rparr>] []
          [\<lparr>wl_user_id = 3, work_date = 19844, is_onsite = False\<rparr>] [''2024-05-01''])
       = Some ([], 0)"
  by (simp add: by_person_def isIncluded_def
      userGroupId_def userHolidayDates_def holidaysByUser_def workLocationsByUser_def
      publicHolidaysMap_def userRemoteDates_def userLocations_def isRemoteWorkDay_def
      initialGroupMap_def employeeData_def array_sort_def groupCompare_def Let_def
      formatDate_examples newDate_iso [OF parseIsoDate_examples(1)] utcHost_localDay
      getDay_examples isWeekendDay_def)


end
